theory Spec2Isabelle
  imports Main
begin

section \<open>Strings\<close>

text \<open>
  A source string is a \<^typ>\<open>string\<close>: the bytes of its UTF-8 text. Every character the
  program looks for (newline, comma, \<open>=\<close>, \<open>#\<close>, the two quotes) is ASCII, so splitting
  and slicing on bytes and on UTF-16 code units agree. \<open>String.prototype.trim\<close> is
  modelled for the ASCII white space (tab, line feed, vertical tab, form feed, carriage
  return, space); the model is exact on every text whose non-ASCII characters are not
  Unicode white space or line separators.
\<close>

definition is_ws :: "char \<Rightarrow> bool" where
  "is_ws c \<longleftrightarrow>
     c = CHR 0x09 \<or> c = CHR 0x0A \<or> c = CHR 0x0B \<or> c = CHR 0x0C \<or> c = CHR 0x0D \<or> c = CHR 0x20"

text \<open>The characters the regular expression's \<open>.\<close> does not match.\<close>

definition is_line_terminator :: "char \<Rightarrow> bool" where
  "is_line_terminator c \<longleftrightarrow> c = CHR 0x0A \<or> c = CHR 0x0D"

definition trim :: "string \<Rightarrow> string" where
  "trim s = rev (dropWhile is_ws (rev (dropWhile is_ws s)))"

text \<open>
  \<open>s.split(sep)\<close> for a separator that matches exactly one character: \<open>n\<close> separators
  give \<open>n + 1\<close> fragments, and the empty string gives one empty fragment.
\<close>

fun split_on :: "(char \<Rightarrow> bool) \<Rightarrow> string \<Rightarrow> string list" where
  "split_on p [] = [[]]"
| "split_on p (c # cs) =
     (if p c then [] # split_on p cs
      else (case split_on p cs of [] \<Rightarrow> [[c]] | x # xs \<Rightarrow> (c # x) # xs))"

definition startsWith :: "string \<Rightarrow> char \<Rightarrow> bool" where
  "startsWith s c = (case s of [] \<Rightarrow> False | x # _ \<Rightarrow> x = c)"

definition endsWith :: "string \<Rightarrow> char \<Rightarrow> bool" where
  "endsWith s c = (s \<noteq> [] \<and> last s = c)"

text \<open>\<open>value.slice(1, -1)\<close>: from index 1 up to, not including, the last index.\<close>

definition slice_1_m1 :: "string \<Rightarrow> string" where
  "slice_1_m1 s = take (length s - 1 - 1) (drop 1 s)"

definition dquote :: char where
  "dquote = CHR 0x22"

definition squote :: char where
  "squote = CHR 0x27"

definition eq_sign :: char where
  "eq_sign = CHR 0x3D"

text \<open>
  \<open>trimmed.match(/^([^=]+)=(.*)$/)\<close>: the first group cannot hold an \<open>=\<close>, so it is
  the text before the first \<open>=\<close> and must not be empty; the second group is all the rest,
  and there is a match only if the rest holds no line terminator.
\<close>

definition match_key_value :: "string \<Rightarrow> (string \<times> string) option" where
  "match_key_value s =
     (case dropWhile (\<lambda>c. c \<noteq> eq_sign) s of
        [] \<Rightarrow> None
      | _ # v \<Rightarrow>
          (let k = takeWhile (\<lambda>c. c \<noteq> eq_sign) s
           in if k = [] \<or> list_ex is_line_terminator v then None else Some (k, v)))"

section \<open>Objects used as dictionaries\<close>

text \<open>
  A JavaScript object with string keys is an association list with distinct keys, in the
  order the properties were created.
\<close>

type_synonym 'v obj = "(string \<times> 'v) list"

text \<open>Creating or overwriting an own data property; an overwritten key keeps its place.\<close>

fun obj_define :: "'v obj \<Rightarrow> string \<Rightarrow> 'v \<Rightarrow> 'v obj" where
  "obj_define [] k v = [(k, v)]"
| "obj_define ((k', v') # r) k v =
     (if k' = k then (k, v) # r else (k', v') # obj_define r k v)"

definition obj_has :: "'v obj \<Rightarrow> string \<Rightarrow> bool" where
  "obj_has r k \<longleftrightarrow> map_of r k \<noteq> None"

text \<open>
  The assignment \<open>result[key] = value\<close> with a string (more generally, a primitive) value,
  on an object whose prototype is \<open>Object.prototype\<close>. The one inherited accessor is
  \<open>__proto__\<close>: unless the object has an own property of that name, the assignment
  reaches the inherited setter, which ignores a value that is not an object.
\<close>

definition obj_set :: "'v obj \<Rightarrow> string \<Rightarrow> 'v \<Rightarrow> 'v obj" where
  "obj_set r k v = (if k = ''__proto__'' \<and> \<not> obj_has r k then r else obj_define r k v)"

section \<open>The .env parser\<close>

text \<open>Lines 37 to 43 of \<open>parseEnvFile\<close>: the second group, trimmed, loses one pair of quotes.\<close>

definition env_value :: "string \<Rightarrow> string" where
  "env_value m2 =
     (let value = trim m2
      in if (startsWith value dquote \<and> endsWith value dquote) \<or>
            (startsWith value squote \<and> endsWith value squote)
         then slice_1_m1 value else value)"

text \<open>The body of the loop over the lines.\<close>

definition env_line :: "string obj \<Rightarrow> string \<Rightarrow> string obj" where
  "env_line result line =
     (let trimmed = trim line
      in if trimmed = [] \<or> startsWith trimmed (CHR ''#'') then result
         else (case match_key_value trimmed of
                 None \<Rightarrow> result
               | Some (m1, m2) \<Rightarrow> obj_set result (trim m1) (env_value m2)))"

definition parseEnvFile :: "string \<Rightarrow> string obj" where
  "parseEnvFile content = foldl env_line [] (split_on (\<lambda>c. c = CHR 0x0A) content)"

section \<open>Property order and decimal numerals\<close>

definition is_digit :: "char \<Rightarrow> bool" where
  "is_digit c \<longleftrightarrow> (48::nat) \<le> of_char c \<and> (of_char c :: nat) \<le> 57"

definition nat_of_digits :: "string \<Rightarrow> nat" where
  "nat_of_digits s = foldl (\<lambda>n c. 10 * n + (of_char c - 48)) 0 s"

text \<open>
  An array index is the canonical decimal numeral of an integer below \<open>2^32 - 1\<close>.
  \<open>Object.keys\<close> lists the array indices first, in ascending numeric order, and then the
  other keys in the order of their creation.
\<close>

definition is_array_index :: "string \<Rightarrow> bool" where
  "is_array_index s \<longleftrightarrow>
     s \<noteq> [] \<and> list_all is_digit s \<and> (s = ''0'' \<or> \<not> startsWith s (CHR ''0'')) \<and>
     nat_of_digits s < 4294967295"

definition own_entries :: "'v obj \<Rightarrow> 'v obj" where
  "own_entries r =
     sort_key (\<lambda>e. nat_of_digits (fst e)) (filter (\<lambda>e. is_array_index (fst e)) r) @
     filter (\<lambda>e. \<not> is_array_index (fst e)) r"

definition Object_keys :: "'v obj \<Rightarrow> string list" where
  "Object_keys r = map fst (own_entries r)"

text \<open>\<open>String(n)\<close> for a natural number: its decimal numeral.\<close>

fun show_nat :: "nat \<Rightarrow> string" where
  "show_nat n =
     (if n < 10 then [''0123456789'' ! n]
      else show_nat (n div 10) @ [''0123456789'' ! (n mod 10)])"

declare show_nat.simps [simp del]

text \<open>
  The object spread \<open>{ ...a, ...b }\<close>, given the own enumerable entries of \<open>a\<close> and of
  \<open>b\<close>: a fresh object on which each entry is defined in turn (never the inherited
  setter: a spread creates own properties).
\<close>

definition define_all :: "'v obj \<Rightarrow> 'v obj \<Rightarrow> 'v obj" where
  "define_all r es = foldl (\<lambda>r e. obj_define r (fst e) (snd e)) r es"

definition object_spread :: "'v obj \<Rightarrow> 'v obj \<Rightarrow> 'v obj" where
  "object_spread a b = define_all (define_all [] a) b"

section \<open>JSON.parse\<close>

text \<open>
  The values \<open>JSON.parse\<close> returns. A number keeps its numeral as written: the program
  never computes with it. The members of an object are its own properties in creation
  order.
\<close>

datatype json =
    JNull
  | JBool bool
  | JNum string
  | JStr string
  | JArr "json list"
  | JObj "(string \<times> json) list"

datatype token =
    TLBrace | TRBrace | TLBrack | TRBrack | TColon | TComma
  | TString string | TNumber string | TTrue | TFalse | TNull

definition json_ws :: "char \<Rightarrow> bool" where
  "json_ws c \<longleftrightarrow> c = CHR 0x20 \<or> c = CHR 0x09 \<or> c = CHR 0x0A \<or> c = CHR 0x0D"

definition is_hex :: "char \<Rightarrow> bool" where
  "is_hex c \<longleftrightarrow>
     is_digit c \<or> ((65::nat) \<le> of_char c \<and> (of_char c :: nat) \<le> 70) \<or>
     ((97::nat) \<le> of_char c \<and> (of_char c :: nat) \<le> 102)"

definition hex_val :: "char \<Rightarrow> nat" where
  "hex_val c =
     (if is_digit c then of_char c - 48
      else if (of_char c :: nat) \<le> 70 then of_char c - 55 else of_char c - 87)"

text \<open>
  The bytes of the code unit a \<open>\uXXXX\<close> escape denotes, in UTF-8 (a surrogate is kept
  as a unit of its own, in the three-byte form).
\<close>

definition utf8_unit :: "nat \<Rightarrow> string" where
  "utf8_unit n =
     (if n < 128 then [char_of n]
      else if n < 2048 then [char_of (192 + n div 64), char_of (128 + n mod 64)]
      else [char_of (224 + n div 4096), char_of (128 + (n div 64) mod 64),
            char_of (128 + n mod 64)])"

definition unescape :: "char \<Rightarrow> char option" where
  "unescape e =
     (if e = CHR 0x22 then Some (CHR 0x22)
      else if e = CHR 0x5C then Some (CHR 0x5C)
      else if e = CHR ''/'' then Some (CHR ''/'')
      else if e = CHR ''b'' then Some (CHR 0x08)
      else if e = CHR ''f'' then Some (CHR 0x0C)
      else if e = CHR ''n'' then Some (CHR 0x0A)
      else if e = CHR ''r'' then Some (CHR 0x0D)
      else if e = CHR ''t'' then Some (CHR 0x09)
      else None)"

text \<open>
  The text after an opening quote: the decoded string and what follows the closing
  quote. A raw control character, an unknown escape and a missing closing quote are
  errors.
\<close>

fun lex_string :: "string \<Rightarrow> (string \<times> string) option" where
  "lex_string [] = None"
| "lex_string (c # cs) =
     (if c = CHR 0x22 then Some ([], cs)
      else if c = CHR 0x5C then
        (case cs of
           [] \<Rightarrow> None
         | e # cs1 \<Rightarrow>
             if e = CHR ''u'' then
               (case cs1 of
                  h1 # h2 # h3 # h4 # cs2 \<Rightarrow>
                    if is_hex h1 \<and> is_hex h2 \<and> is_hex h3 \<and> is_hex h4 then
                      map_option
                        (\<lambda>(s, r). (utf8_unit (4096 * hex_val h1 + 256 * hex_val h2 +
                                     16 * hex_val h3 + hex_val h4) @ s, r))
                        (lex_string cs2)
                    else None
                | _ \<Rightarrow> None)
             else
               (case unescape e of
                  None \<Rightarrow> None
                | Some x \<Rightarrow> map_option (\<lambda>(s, r). (x # s, r)) (lex_string cs1)))
      else if (of_char c :: nat) < 32 then None
      else map_option (\<lambda>(s, r). (c # s, r)) (lex_string cs))"

text \<open>The grammar of a number: \<open>-? (0 | [1-9][0-9]*) (.[0-9]+)? ([eE][+-]?[0-9]+)?\<close>.\<close>

definition lex_frac :: "string \<Rightarrow> (string \<times> string) option" where
  "lex_frac s =
     (case s of
        [] \<Rightarrow> Some ([], s)
      | c # r \<Rightarrow>
          if c = CHR ''.'' then
            (if takeWhile is_digit r = [] then None
             else Some (c # takeWhile is_digit r, dropWhile is_digit r))
          else Some ([], s))"

definition lex_sign :: "string \<Rightarrow> string \<times> string" where
  "lex_sign s =
     (case s of
        [] \<Rightarrow> ([], s)
      | c # r \<Rightarrow> if c = CHR ''+'' \<or> c = CHR ''-'' then ([c], r) else ([], s))"

definition lex_exp :: "string \<Rightarrow> (string \<times> string) option" where
  "lex_exp s =
     (case s of
        [] \<Rightarrow> Some ([], s)
      | c # r \<Rightarrow>
          if c = CHR ''e'' \<or> c = CHR ''E'' then
            (case lex_sign r of
               (sg, r1) \<Rightarrow>
                 if takeWhile is_digit r1 = [] then None
                 else Some (c # sg @ takeWhile is_digit r1, dropWhile is_digit r1))
          else Some ([], s))"

definition lex_int :: "string \<Rightarrow> (string \<times> string) option" where
  "lex_int s =
     (case s of
        [] \<Rightarrow> None
      | d # r \<Rightarrow>
          if \<not> is_digit d then None
          else if d = CHR ''0'' then Some ([d], r)
          else Some (takeWhile is_digit s, dropWhile is_digit s))"

definition lex_minus :: "string \<Rightarrow> string \<times> string" where
  "lex_minus s = (case s of [] \<Rightarrow> ([], s) | c # r \<Rightarrow> if c = CHR ''-'' then ([c], r) else ([], s))"

definition lex_number :: "string \<Rightarrow> (string \<times> string) option" where
  "lex_number s =
     (case lex_minus s of
        (sg, s1) \<Rightarrow>
          (case lex_int s1 of
             None \<Rightarrow> None
           | Some (ip, s2) \<Rightarrow>
               (case lex_frac s2 of
                  None \<Rightarrow> None
                | Some (fp, s3) \<Rightarrow>
                    (case lex_exp s3 of
                       None \<Rightarrow> None
                     | Some (ep, s4) \<Rightarrow> Some (sg @ ip @ fp @ ep, s4)))))"

lemma lex_string_shorter: "lex_string s = Some (x, r) \<Longrightarrow> length r < length s"
  apply (induction s arbitrary: x r rule: lex_string.induct)
   apply simp
  apply (simp split: if_splits list.splits option.splits)
     apply fastforce+
  done

lemma lex_int_splits: "lex_int s = Some (a, r) \<Longrightarrow> s = a @ r \<and> a \<noteq> []"
  by (cases s) (auto simp: lex_int_def split: if_splits)

lemma lex_frac_splits: "lex_frac s = Some (a, r) \<Longrightarrow> s = a @ r"
  by (cases s) (auto simp: lex_frac_def split: if_splits)

lemma lex_sign_splits: "lex_sign s = (a, r) \<Longrightarrow> s = a @ r"
  by (cases s) (auto simp: lex_sign_def split: if_splits)

lemma lex_exp_splits: "lex_exp s = Some (a, r) \<Longrightarrow> s = a @ r"
  by (cases s) (auto simp: lex_exp_def dest: lex_sign_splits split: if_splits prod.splits)

lemma lex_minus_splits: "lex_minus s = (a, r) \<Longrightarrow> s = a @ r"
  by (cases s) (auto simp: lex_minus_def split: if_splits)

lemma lex_number_shorter: "lex_number s = Some (n, r) \<Longrightarrow> length r < length s"
proof -
  assume a: "lex_number s = Some (n, r)"
  then obtain sg s1 ip s2 fp s3 ep where parts:
    "lex_minus s = (sg, s1)" "lex_int s1 = Some (ip, s2)" "lex_frac s2 = Some (fp, s3)"
    "lex_exp s3 = Some (ep, r)"
    by (auto simp: lex_number_def split: prod.splits option.splits)
  then have "s = sg @ ip @ fp @ ep @ r" and "ip \<noteq> []"
    using lex_minus_splits [of s sg s1] lex_int_splits [of s1 ip s2]
      lex_frac_splits [of s2 fp s3] lex_exp_splits [of s3 ep r]
    by auto
  then have "length s = length sg + length ip + length fp + length ep + length r"
    and "0 < length ip"
    by auto
  then show ?thesis by simp
qed

text \<open>The text as tokens; \<open>None\<close> where no token starts.\<close>

function lex :: "string \<Rightarrow> token list option" where
  "lex [] = Some []"
| "lex (c # cs) =
     (if json_ws c then lex cs
      else if c = CHR ''{'' then map_option ((#) TLBrace) (lex cs)
      else if c = CHR ''}'' then map_option ((#) TRBrace) (lex cs)
      else if c = CHR ''['' then map_option ((#) TLBrack) (lex cs)
      else if c = CHR '']'' then map_option ((#) TRBrack) (lex cs)
      else if c = CHR '':'' then map_option ((#) TColon) (lex cs)
      else if c = CHR '','' then map_option ((#) TComma) (lex cs)
      else if c = CHR 0x22 then
        (case lex_string cs of
           None \<Rightarrow> None
         | Some (x, r) \<Rightarrow> map_option ((#) (TString x)) (lex r))
      else if c = CHR ''-'' \<or> is_digit c then
        (case lex_number (c # cs) of
           None \<Rightarrow> None
         | Some (n, r) \<Rightarrow> map_option ((#) (TNumber n)) (lex r))
      else if take 4 (c # cs) = ''true'' then map_option ((#) TTrue) (lex (drop 3 cs))
      else if take 5 (c # cs) = ''false'' then map_option ((#) TFalse) (lex (drop 4 cs))
      else if take 4 (c # cs) = ''null'' then map_option ((#) TNull) (lex (drop 3 cs))
      else None)"
  by pat_completeness auto
termination
proof (relation "measure length")
  show "wf (measure length)" by simp
next
  fix c cs x2 x y
  assume "lex_string cs = Some x2" and "(x, y) = x2"
  then have "length y < length cs"
    using lex_string_shorter [of cs x y] by simp
  then show "(y, c # cs) \<in> measure length" by simp
next
  fix c cs x2 x y
  assume "lex_number (c # cs) = Some x2" and "(x, y) = x2"
  then show "(y, c # cs) \<in> measure length"
    using lex_number_shorter [of "c # cs" x y] by simp
qed simp_all

text \<open>
  The parser is a pushdown automaton over the tokens: what may come next, and the stack
  of the arrays and objects that are still open. An object's members are defined in
  turn, so a repeated name keeps its first place and its last value.
\<close>

datatype expect =
    Value
  | ValueOrClose
  | KeyOrClose
  | Key
  | Colon
  | CommaOrClose
  | End json

datatype frame =
    FArr "json list"
  | FObj "(string \<times> json) list" "string option"

fun complete :: "json \<Rightarrow> frame list \<Rightarrow> (expect \<times> frame list) option" where
  "complete v [] = Some (End v, [])"
| "complete v (FArr xs # st) = Some (CommaOrClose, FArr (xs @ [v]) # st)"
| "complete v (FObj ob (Some k) # st) = Some (CommaOrClose, FObj (obj_define ob k v) None # st)"
| "complete v (FObj ob None # st) = None"

fun open_value :: "token \<Rightarrow> frame list \<Rightarrow> (expect \<times> frame list) option" where
  "open_value TLBrack st = Some (ValueOrClose, FArr [] # st)"
| "open_value TLBrace st = Some (KeyOrClose, FObj [] None # st)"
| "open_value (TString x) st = complete (JStr x) st"
| "open_value (TNumber n) st = complete (JNum n) st"
| "open_value TTrue st = complete (JBool True) st"
| "open_value TFalse st = complete (JBool False) st"
| "open_value TNull st = complete JNull st"
| "open_value _ st = None"

fun close_array :: "frame list \<Rightarrow> (expect \<times> frame list) option" where
  "close_array (FArr xs # st) = complete (JArr xs) st"
| "close_array _ = None"

fun close_object :: "frame list \<Rightarrow> (expect \<times> frame list) option" where
  "close_object (FObj ob None # st) = complete (JObj ob) st"
| "close_object _ = None"

fun member_name :: "token \<Rightarrow> frame list \<Rightarrow> (expect \<times> frame list) option" where
  "member_name (TString k) (FObj ob None # st) = Some (Colon, FObj ob (Some k) # st)"
| "member_name _ _ = None"

fun pstep :: "expect \<Rightarrow> frame list \<Rightarrow> token \<Rightarrow> (expect \<times> frame list) option" where
  "pstep Value st t = open_value t st"
| "pstep ValueOrClose st t = (if t = TRBrack then close_array st else open_value t st)"
| "pstep KeyOrClose st t = (if t = TRBrace then close_object st else member_name t st)"
| "pstep Key st t = member_name t st"
| "pstep Colon st t = (if t = TColon then Some (Value, st) else None)"
| "pstep CommaOrClose st t =
     (if t = TComma then
        (case st of
           [] \<Rightarrow> None
         | FArr xs # _ \<Rightarrow> Some (Value, st)
         | FObj ob k # _ \<Rightarrow> Some (Key, st))
      else if t = TRBrack then close_array st
      else if t = TRBrace then close_object st
      else None)"
| "pstep (End v) st t = None"

fun parse_tokens :: "expect \<Rightarrow> frame list \<Rightarrow> token list \<Rightarrow> json option" where
  "parse_tokens e st [] = (case e of End v \<Rightarrow> (if st = [] then Some v else None) | _ \<Rightarrow> None)"
| "parse_tokens e st (t # ts) =
     (case pstep e st t of None \<Rightarrow> None | Some (e', st') \<Rightarrow> parse_tokens e' st' ts)"

text \<open>\<open>JSON.parse(text)\<close>; \<open>None\<close> is the \<open>SyntaxError\<close> it throws.\<close>

definition JSON_parse :: "string \<Rightarrow> json option" where
  "JSON_parse text = (case lex text of None \<Rightarrow> None | Some ts \<Rightarrow> parse_tokens Value [] ts)"

section \<open>Errors\<close>

text \<open>
  A thrown value, with the fields the program reads: the name of its class, \<open>message\<close>,
  and the \<open>statusCode\<close> and \<open>body.message\<close> a rejection of the remote client may
  carry.
\<close>

datatype thrown =
  Thrown (error_name: string) (error_message: string) (statusCode: "int option")
    (body_message: "string option")

definition new_Error :: "string \<Rightarrow> thrown" where
  "new_Error msg = Thrown ''Error'' msg None None"

text \<open>
  What \<open>JSON.parse\<close> throws. The text of the message is the engine's; a fixed text
  stands for it.
\<close>

definition SyntaxError :: thrown where
  "SyntaxError = Thrown ''SyntaxError'' ''Unexpected token in JSON'' None None"

text \<open>\<open>a || b\<close> on an optional string: an absent and an empty \<open>a\<close> both give \<open>b\<close>.\<close>

definition or_else :: "string option \<Rightarrow> string \<Rightarrow> string" where
  "or_else a b = (case a of None \<Rightarrow> b | Some x \<Rightarrow> if x = [] then b else x)"

section \<open>Merging the three sources\<close>

text \<open>\<open>parts.join(sep)\<close>.\<close>

fun join :: "string \<Rightarrow> string list \<Rightarrow> string" where
  "join sep [] = []"
| "join sep [x] = x"
| "join sep (x # y # ys) = x @ sep @ join sep (y # ys)"

text \<open>
  The own enumerable properties a spread copies from a parsed value: the members of an
  object, the elements of an array under their indices, the characters of a string
  under their indices, and nothing from a number, a boolean or \<open>null\<close>.
\<close>

fun enumerable_entries :: "json \<Rightarrow> json obj" where
  "enumerable_entries (JObj ob) = own_entries ob"
| "enumerable_entries (JArr xs) = zip (map show_nat [0..<length xs]) xs"
| "enumerable_entries (JStr x) = zip (map show_nat [0..<length x]) (map (\<lambda>c. JStr [c]) x)"
| "enumerable_entries _ = []"

text \<open>The body of the loop over the inline pairs.\<close>

definition inline_pair :: "json obj \<Rightarrow> string \<Rightarrow> json obj" where
  "inline_pair result pair =
     (case split_on (\<lambda>c. c = eq_sign) pair of
        [] \<Rightarrow> result
      | key # valueParts \<Rightarrow>
          if key \<noteq> [] \<and> valueParts \<noteq> []
          then obj_set result (trim key) (JStr (trim (join [eq_sign] valueParts)))
          else result)"

definition load_env_file ::
  "(string \<Rightarrow> thrown + string) \<Rightarrow> string \<Rightarrow> json obj \<Rightarrow> thrown + json obj" where
  "load_env_file readFileSync envFile result =
     (if envFile = [] then Inr result
      else (case readFileSync envFile of
              Inl e \<Rightarrow> Inl e
            | Inr content \<Rightarrow>
                Inr (object_spread (own_entries result)
                       (map (\<lambda>e. (fst e, JStr (snd e))) (own_entries (parseEnvFile content))))))"

definition load_json :: "string \<Rightarrow> json obj \<Rightarrow> thrown + json obj" where
  "load_json jsonVars result =
     (if jsonVars = [] then Inr result
      else (case JSON_parse jsonVars of
              None \<Rightarrow> Inl SyntaxError
            | Some parsed \<Rightarrow>
                Inr (object_spread (own_entries result) (enumerable_entries parsed))))"

definition load_inline :: "string \<Rightarrow> json obj \<Rightarrow> json obj" where
  "load_inline variables result =
     (if variables = [] then result
      else foldl inline_pair result
             (filter (\<lambda>p. trim p \<noteq> [])
                (split_on (\<lambda>c. c = CHR 0x0A \<or> c = CHR '','') variables)))"

text \<open>
  \<open>parseVariables\<close>. The file system is a parameter: \<open>readFileSync\<close> gives the text
  of a path or the error it throws. An input that was not given is the empty string.
\<close>

definition parseVariables ::
  "(string \<Rightarrow> thrown + string) \<Rightarrow> string \<Rightarrow> string \<Rightarrow> string \<Rightarrow> thrown + json obj" where
  "parseVariables readFileSync envFile jsonVars variables =
     (case load_env_file readFileSync envFile [] of
        Inl e \<Rightarrow> Inl e
      | Inr result1 \<Rightarrow>
          (case load_json jsonVars result1 of
             Inl e \<Rightarrow> Inl e
           | Inr result2 \<Rightarrow> Inr (load_inline variables result2)))"

section \<open>The run\<close>

text \<open>
  The remote client is a parameter: a transition function over a state of its own, which
  answers each call with a response or with the value it throws.
\<close>

datatype call =
    listEnvironmentVariables string string string
  | bulkSetEnvironmentVariables string string string "(string \<times> json option) list"
  | updateEnvironmentVariable string string string string "json option"
  | deleteEnvironmentVariable string string string string

datatype response = Response (data: "(string \<times> json) list option")

type_synonym 's client = "'s \<Rightarrow> call \<Rightarrow> (thrown + response) \<times> 's"

text \<open>
  What a run does that can be seen from outside, in order: the calls to the remote
  client, the warnings and errors it logs, the outputs it sets, and \<open>setFailed\<close>.
  (\<open>core.info\<close> lines are left out.) The \<open>variables\<close> output of \<open>list\<close> is kept as
  the object, not as its JSON text.
\<close>

datatype outval = OutNum nat | OutStr string | OutJson "(string \<times> json) list"

datatype event =
    Request call
  | Warning string
  | ErrorLog string
  | SetOutput string outval
  | SetFailed string

text \<open>
  \<open>core.getInput\<close>: the inputs are a function from the input's name to its text, empty
  when the input was not given; a required input that is empty throws, and the text is
  returned trimmed.
\<close>

definition getInput :: "(string \<Rightarrow> string) \<Rightarrow> string \<Rightarrow> string" where
  "getInput inp name = trim (inp name)"

definition getInput_required :: "(string \<Rightarrow> string) \<Rightarrow> string \<Rightarrow> thrown + string" where
  "getInput_required inp name =
     (if inp name = [] then Inl (new_Error (''Input required and not supplied: '' @ name))
      else Inr (trim (inp name)))"

definition cross_mark :: string where
  "cross_mark = [CHR 0xE2, CHR 0x9C, CHR 0x97]"

definition obj_get :: "'v obj \<Rightarrow> string \<Rightarrow> 'v option" where
  "obj_get r k = map_of r k"

type_synonym 's outcome = "thrown option \<times> 's \<times> event list"

definition run_list :: "'s client \<Rightarrow> 's \<Rightarrow> string \<Rightarrow> string \<Rightarrow> string \<Rightarrow> 's outcome" where
  "run_list client s organisation appName environmentName =
     (let c = listEnvironmentVariables organisation appName environmentName
      in case client s c of
           (Inl e, s') \<Rightarrow> (Some e, s', [Request c])
         | (Inr resp, s') \<Rightarrow>
             (let variables = (case data resp of None \<Rightarrow> [] | Some d \<Rightarrow> d)
              in (None, s',
                  [Request c,
                   SetOutput ''variables'' (OutJson variables),
                   SetOutput ''count'' (OutNum (length (Object_keys variables)))])))"

definition run_clear :: "'s client \<Rightarrow> 's \<Rightarrow> string \<Rightarrow> string \<Rightarrow> string \<Rightarrow> 's outcome" where
  "run_clear client s organisation appName environmentName =
     (let c = bulkSetEnvironmentVariables organisation appName environmentName []
      in case client s c of
           (Inr resp, s') \<Rightarrow>
             (None, s',
              [Request c,
               SetOutput ''deleted_count'' (OutStr ''all''),
               SetOutput ''failed_count'' (OutNum 0)])
         | (Inl e, s') \<Rightarrow>
             (Some e, s',
              [Request c,
               ErrorLog (''Failed to clear variables: '' @
                         or_else (body_message e) (error_message e))]))"

text \<open>The loop of \<open>delete\<close>, with its two counters.\<close>

fun delete_each ::
  "'s client \<Rightarrow> string \<Rightarrow> string \<Rightarrow> string \<Rightarrow> string list \<Rightarrow>
   's \<times> nat \<times> nat \<times> event list \<Rightarrow> 's \<times> nat \<times> nat \<times> event list" where
  "delete_each client organisation appName environmentName [] st = st"
| "delete_each client organisation appName environmentName (key # keys) (s, deleted, failed, tr) =
     (let c = deleteEnvironmentVariable organisation appName environmentName key
      in case client s c of
           (Inr resp, s') \<Rightarrow>
             delete_each client organisation appName environmentName keys
               (s', deleted + 1, failed, tr @ [Request c])
         | (Inl e, s') \<Rightarrow>
             if statusCode e = Some 404 then
               delete_each client organisation appName environmentName keys
                 (s', deleted + 1, failed, tr @ [Request c])
             else
               delete_each client organisation appName environmentName keys
                 (s', deleted, failed + 1,
                  tr @ [Request c,
                        Warning (''  '' @ cross_mark @ '' Failed to delete '' @ key @ '': '' @
                                 or_else (body_message e) (error_message e))]))"

definition key_list :: "string \<Rightarrow> string list" where
  "key_list keysInput =
     filter (\<lambda>k. k \<noteq> [])
       (map trim (split_on (\<lambda>c. c = CHR 0x0A \<or> c = CHR '','') keysInput))"

definition run_delete ::
  "(string \<Rightarrow> string) \<Rightarrow> 's client \<Rightarrow> 's \<Rightarrow> string \<Rightarrow> string \<Rightarrow> string \<Rightarrow> 's outcome" where
  "run_delete inp client s organisation appName environmentName =
     (case getInput_required inp ''keys'' of
        Inl e \<Rightarrow> (Some e, s, [])
      | Inr keysInput \<Rightarrow>
          (let keys = key_list keysInput
           in if length keys = 0
              then (Some (new_Error ''No keys provided for delete operation''), s, [])
              else (case delete_each client organisation appName environmentName keys
                           (s, 0, 0, []) of
                      (s', deleted, failed, tr) \<Rightarrow>
                        (None, s',
                         tr @ [SetOutput ''deleted_count'' (OutNum deleted),
                               SetOutput ''failed_count'' (OutNum failed)]))))"

text \<open>The loop of \<open>set\<close> in merge mode, with its two counters.\<close>

fun update_each ::
  "'s client \<Rightarrow> string \<Rightarrow> string \<Rightarrow> string \<Rightarrow> json obj \<Rightarrow> string list \<Rightarrow>
   's \<times> nat \<times> nat \<times> event list \<Rightarrow> 's \<times> nat \<times> nat \<times> event list" where
  "update_each client organisation appName environmentName vars [] st = st"
| "update_each client organisation appName environmentName vars (key # keys)
     (s, updated, failed, tr) =
     (let c = updateEnvironmentVariable organisation appName environmentName key
                (obj_get vars key)
      in case client s c of
           (Inr resp, s') \<Rightarrow>
             update_each client organisation appName environmentName vars keys
               (s', updated + 1, failed, tr @ [Request c])
         | (Inl e, s') \<Rightarrow>
             update_each client organisation appName environmentName vars keys
               (s', updated, failed + 1,
                tr @ [Request c,
                      Warning (''  '' @ cross_mark @ '' Failed to set '' @ key @ '': '' @
                               or_else (body_message e) (error_message e))]))"

definition set_merge ::
  "'s client \<Rightarrow> 's \<Rightarrow> string \<Rightarrow> string \<Rightarrow> string \<Rightarrow> json obj \<Rightarrow> string list \<Rightarrow> 's outcome"
  where
  "set_merge client s organisation appName environmentName vars keys =
     (case update_each client organisation appName environmentName vars keys (s, 0, 0, []) of
        (s', updated, failed, tr) \<Rightarrow>
          (if failed > 0
           then Some (new_Error (''Failed to set '' @ show_nat failed @ '' variable(s)''))
           else None,
           s',
           tr @ [SetOutput ''updated_count'' (OutNum updated),
                 SetOutput ''failed_count'' (OutNum failed)]))"

definition set_replace ::
  "'s client \<Rightarrow> 's \<Rightarrow> string \<Rightarrow> string \<Rightarrow> string \<Rightarrow> json obj \<Rightarrow> string list \<Rightarrow> 's outcome"
  where
  "set_replace client s organisation appName environmentName vars keys =
     (let c = bulkSetEnvironmentVariables organisation appName environmentName
                (map (\<lambda>key. (key, obj_get vars key)) keys)
      in case client s c of
           (Inr resp, s') \<Rightarrow>
             (None, s',
              [Request c,
               SetOutput ''updated_count'' (OutNum (length keys)),
               SetOutput ''failed_count'' (OutNum 0)])
         | (Inl e, s') \<Rightarrow>
             (Some e, s',
              [Request c,
               ErrorLog (''Failed to set variables: '' @
                         or_else (body_message e) (error_message e)),
               SetOutput ''updated_count'' (OutNum 0),
               SetOutput ''failed_count'' (OutNum (length keys))]))"

definition run_set ::
  "(string \<Rightarrow> string) \<Rightarrow> (string \<Rightarrow> thrown + string) \<Rightarrow> 's client \<Rightarrow> 's \<Rightarrow>
   string \<Rightarrow> string \<Rightarrow> string \<Rightarrow> bool \<Rightarrow> 's outcome" where
  "run_set inp readFileSync client s organisation appName environmentName replace =
     (let envFile = getInput inp ''env_file'';
          jsonVars = getInput inp ''json_vars'';
          variables = getInput inp ''variables''
      in if envFile = [] \<and> jsonVars = [] \<and> variables = []
         then (Some (new_Error
                 ''At least one of env_file, json_vars, or variables must be provided for set operation''),
               s, [])
         else (case parseVariables readFileSync envFile jsonVars variables of
                 Inl e \<Rightarrow> (Some e, s, [])
               | Inr vars \<Rightarrow>
                   (let keys = Object_keys vars
                    in if length keys = 0 then (None, s, [Warning ''No variables to set''])
                       else if replace
                       then set_replace client s organisation appName environmentName vars keys
                       else set_merge client s organisation appName environmentName vars keys)))"

text \<open>The body of the outer \<open>try\<close>: the exception that leaves it, if any.\<close>

definition run_try ::
  "(string \<Rightarrow> string) \<Rightarrow> (string \<Rightarrow> thrown + string) \<Rightarrow> 's client \<Rightarrow> 's \<Rightarrow> 's outcome" where
  "run_try inp readFileSync client s =
     (case getInput_required inp ''api_key'' of
        Inl e \<Rightarrow> (Some e, s, [])
      | Inr apiKey \<Rightarrow>
     (case getInput_required inp ''app_name'' of
        Inl e \<Rightarrow> (Some e, s, [])
      | Inr appName \<Rightarrow>
     (case getInput_required inp ''organization'' of
        Inl e \<Rightarrow> (Some e, s, [])
      | Inr organisation \<Rightarrow>
     (case getInput_required inp ''environment_name'' of
        Inl e \<Rightarrow> (Some e, s, [])
      | Inr environmentName \<Rightarrow>
          (let operation = (if getInput inp ''operation'' = [] then ''list''
                            else getInput inp ''operation'');
               replace = (getInput inp ''replace'' = ''true'')
           in if operation = ''list''
              then run_list client s organisation appName environmentName
              else if operation = ''clear''
              then run_clear client s organisation appName environmentName
              else if operation = ''delete''
              then run_delete inp client s organisation appName environmentName
              else if operation = ''set''
              then run_set inp readFileSync client s organisation appName environmentName
                     replace
              else (Some (new_Error
                      (''Unknown operation: '' @ operation @
                       ''. Valid operations are: list, set, clear, delete'')),
                    s, []))))))"

text \<open>The message of the outer \<open>catch\<close>.\<close>

definition errorMessage :: "thrown \<Rightarrow> string" where
  "errorMessage e =
     or_else (body_message e)
       (if error_message e = [] then ''Unknown error'' else error_message e)"

text \<open>\<open>run\<close>: the final state of the remote side and the trace of the run.\<close>

definition run ::
  "(string \<Rightarrow> string) \<Rightarrow> (string \<Rightarrow> thrown + string) \<Rightarrow> 's client \<Rightarrow> 's \<Rightarrow> 's \<times> event list"
  where
  "run inp readFileSync client s =
     (case run_try inp readFileSync client s of
        (None, s', tr) \<Rightarrow> (s', tr)
      | (Some e, s', tr) \<Rightarrow> (s', tr @ [SetFailed (errorMessage e)]))"

section \<open>Reading a trace\<close>

fun requests :: "event list \<Rightarrow> call list" where
  "requests [] = []"
| "requests (Request c # tr) = c # requests tr"
| "requests (_ # tr) = requests tr"

fun outputs :: "event list \<Rightarrow> (string \<times> outval) list" where
  "outputs [] = []"
| "outputs (SetOutput n v # tr) = (n, v) # outputs tr"
| "outputs (_ # tr) = outputs tr"

fun marked_failed :: "event list \<Rightarrow> bool" where
  "marked_failed [] = False"
| "marked_failed (SetFailed m # tr) = True"
| "marked_failed (_ # tr) = marked_failed tr"

text \<open>What the remote side answers, one after the other, to a list of calls.\<close>

fun answers :: "'s client \<Rightarrow> 's \<Rightarrow> call list \<Rightarrow> (thrown + response) list" where
  "answers client s [] = []"
| "answers client s (c # cs) = fst (client s c) # answers client (snd (client s c)) cs"

fun final_state :: "'s client \<Rightarrow> 's \<Rightarrow> call list \<Rightarrow> 's" where
  "final_state client s [] = s"
| "final_state client s (c # cs) = final_state client (snd (client s c)) cs"

definition succeeded :: "thrown + response \<Rightarrow> bool" where
  "succeeded a = (case a of Inr _ \<Rightarrow> True | Inl _ \<Rightarrow> False)"

definition not_found :: "thrown + response \<Rightarrow> bool" where
  "not_found a = (case a of Inr _ \<Rightarrow> False | Inl e \<Rightarrow> statusCode e = Some 404)"

section \<open>Inputs, files and remote sides of the examples\<close>

text \<open>The four inputs every operation requires are given.\<close>

definition required_inputs :: "(string \<Rightarrow> string) \<Rightarrow> bool" where
  "required_inputs inp \<longleftrightarrow>
     inp ''api_key'' \<noteq> [] \<and> inp ''app_name'' \<noteq> [] \<and> inp ''organization'' \<noteq> [] \<and>
     inp ''environment_name'' \<noteq> []"

text \<open>
  A run for organisation \<open>org\<close>, application \<open>app\<close>, environment \<open>prod\<close>, with the
  operation and one more input chosen.
\<close>

definition inputs_for :: "string \<Rightarrow> string \<Rightarrow> string \<Rightarrow> string \<Rightarrow> string" where
  "inputs_for operation name text n =
     (if n = ''api_key'' then ''secret''
      else if n = ''app_name'' then ''app''
      else if n = ''organization'' then ''org''
      else if n = ''environment_name'' then ''prod''
      else if n = ''operation'' then operation
      else if n = name then text
      else [])"

text \<open>A file system with no file at all.\<close>

definition no_files :: "string \<Rightarrow> thrown + string" where
  "no_files path = Inl (new_Error (''ENOENT: no such file or directory, open '' @ path))"

text \<open>
  A remote side whose state counts the calls it has answered, and which rejects the
  call number \<open>bad\<close> (counting from 0) with status \<open>code\<close>.
\<close>

definition failing_at :: "nat \<Rightarrow> int \<Rightarrow> nat client" where
  "failing_at bad code n c =
     (if n = bad then Inl (Thrown ''Error'' ''rejected'' (Some code) None)
      else Inr (Response None),
      n + 1)"

text \<open>A double-quoted text, for the examples.\<close>

definition dq :: "string \<Rightarrow> string" where
  "dq s = dquote # s @ [dquote]"

text \<open>A file system with the one file \<open>name\<close>.\<close>

definition one_file :: "string \<Rightarrow> string \<Rightarrow> string \<Rightarrow> thrown + string" where
  "one_file name content path = (if path = name then Inr content else no_files path)"

section \<open>The specification's notions\<close>

text \<open>Trimming on the left and on the right; \<open>trim\<close> does both.\<close>

definition ltrim :: "string \<Rightarrow> string" where
  "ltrim s = dropWhile is_ws s"

definition rtrim :: "string \<Rightarrow> string" where
  "rtrim s = rev (dropWhile is_ws (rev s))"

text \<open>
  The mapping a list of entries stands for when each entry is applied in turn, a later
  entry overwriting an earlier one of the same name.
\<close>

definition mapping_of :: "'v obj \<Rightarrow> (string \<rightharpoonup> 'v)" where
  "mapping_of es = foldl (\<lambda>m e. m(fst e \<mapsto> snd e)) Map.empty es"

text \<open>
  The file source and the JSON source, each parsed alone: the mapping of the file (empty
  when no path is given) and of the JSON string.
\<close>

definition file_source :: "(string \<Rightarrow> thrown + string) \<Rightarrow> string \<Rightarrow> (string \<rightharpoonup> json)" where
  "file_source readFileSync envFile =
     (if envFile = [] then Map.empty
      else (case readFileSync envFile of
              Inl e \<Rightarrow> Map.empty
            | Inr content \<Rightarrow> map_option JStr \<circ> map_of (parseEnvFile content)))"

definition json_source :: "string \<Rightarrow> (string \<rightharpoonup> json)" where
  "json_source jsonVars =
     (if jsonVars = [] then Map.empty
      else (case JSON_parse jsonVars of
              None \<Rightarrow> Map.empty
            | Some parsed \<Rightarrow> mapping_of (enumerable_entries parsed)))"

text \<open>
  The inline source as the specification words it: split on newline or comma, trim each
  fragment and skip the blank ones, split every remaining fragment at its first \<open>=\<close>
  into key and value, and trim both. A fragment without \<open>=\<close> gives no pair.
\<close>

definition first_eq :: "string \<Rightarrow> (string \<times> string) option" where
  "first_eq fragment =
     (case dropWhile (\<lambda>c. c \<noteq> eq_sign) fragment of
        [] \<Rightarrow> None
      | _ # v \<Rightarrow> Some (takeWhile (\<lambda>c. c \<noteq> eq_sign) fragment, v))"

definition worded_pair :: "string \<Rightarrow> (string \<times> string) list" where
  "worded_pair fragment =
     (case first_eq fragment of None \<Rightarrow> [] | Some (k, v) \<Rightarrow> [(trim k, trim v)])"

definition worded_inline_pairs :: "string \<Rightarrow> (string \<times> string) list" where
  "worded_inline_pairs variables =
     concat (map worded_pair
       (filter (\<lambda>fragment. fragment \<noteq> [])
          (map trim (split_on (\<lambda>c. c = CHR 0x0A \<or> c = CHR '','') variables))))"

text \<open>
  The mapping those pairs stand for: each pair maps its key to its value, a later pair
  overwriting an earlier one of the same key.
\<close>

definition worded_mapping :: "string \<Rightarrow> (string \<rightharpoonup> json)" where
  "worded_mapping variables =
     mapping_of (map (\<lambda>kv. (fst kv, JStr (snd kv))) (worded_inline_pairs variables))"

text \<open>
  The inline source in the amended reading: split on newline or comma and skip the
  fragments that are blank once trimmed; a fragment without \<open>=\<close>, or with nothing
  before its first \<open>=\<close> as written, gives no pair; every other fragment is split at
  its first \<open>=\<close> into key and value, both trimmed.
\<close>

definition amended_pair :: "string \<Rightarrow> (string \<times> string) list" where
  "amended_pair fragment =
     (case first_eq fragment of
        None \<Rightarrow> []
      | Some (k, v) \<Rightarrow> if k = [] then [] else [(trim k, trim v)])"

definition amended_inline_pairs :: "string \<Rightarrow> (string \<times> string) list" where
  "amended_inline_pairs variables =
     concat (map amended_pair
       (filter (\<lambda>fragment. trim fragment \<noteq> [])
          (split_on (\<lambda>c. c = CHR 0x0A \<or> c = CHR '','') variables)))"

definition amended_mapping :: "string \<Rightarrow> (string \<rightharpoonup> json)" where
  "amended_mapping variables =
     mapping_of (map (\<lambda>kv. (fst kv, JStr (snd kv))) (amended_inline_pairs variables))"

text \<open>
  Modelled from the spec: the repository has no serializer; the specification speaks of
  re-serializing a parsed mapping back to \<open>KEY=VALUE\<close> lines. One entry is written as
  its key, \<open>=\<close> and its value.
\<close>

definition entry_line :: "string \<times> string \<Rightarrow> string" where
  "entry_line kv = fst kv @ eq_sign # snd kv"

text \<open>
  Modelled from the spec: the serializer the repository does not have. The lines of the
  entries, in the order of \<open>Object.entries\<close>, joined by newlines.
\<close>

definition serialize :: "string obj \<Rightarrow> string" where
  "serialize r = join [CHR 0x0A] (map entry_line (own_entries r))"

text \<open>
  A value that is written back as it is read: it has no white space at either end and
  is not wrapped in a pair of quotes.
\<close>

definition plain_value :: "string \<Rightarrow> bool" where
  "plain_value v \<longleftrightarrow>
     trim v = v \<and>
     \<not> ((startsWith v dquote \<and> endsWith v dquote) \<or> (startsWith v squote \<and> endsWith v squote))"

text \<open>What holds of every entry the .env parser stores.\<close>

definition parsed_entry :: "string \<times> string \<Rightarrow> bool" where
  "parsed_entry kv \<longleftrightarrow>
     fst kv \<noteq> [] \<and> trim (fst kv) = fst kv \<and> eq_sign \<notin> set (fst kv) \<and>
     CHR 0x0A \<notin> set (fst kv) \<and> \<not> startsWith (fst kv) (CHR ''#'') \<and>
     fst kv \<noteq> ''__proto__'' \<and> \<not> list_ex is_line_terminator (snd kv)"

section \<open>Evaluating the model\<close>

lemmas string_eval = trim_def is_ws_def startsWith_def endsWith_def slice_1_m1_def dquote_def
  squote_def eq_sign_def is_line_terminator_def match_key_value_def obj_set_def obj_has_def
  env_value_def env_line_def parseEnvFile_def

lemmas object_eval = is_digit_def nat_of_digits_def is_array_index_def own_entries_def
  Object_keys_def define_all_def object_spread_def obj_get_def

lemmas json_eval = JSON_parse_def json_ws_def is_hex_def hex_val_def unescape_def lex_frac_def
  lex_sign_def lex_exp_def lex_int_def lex_minus_def lex_number_def

lemmas merge_eval = inline_pair_def load_env_file_def load_json_def load_inline_def
  parseVariables_def

lemmas input_eval = getInput_def getInput_required_def inputs_for_def required_inputs_def

section \<open>Trimming and splitting\<close>

lemma trim_ltrim_rtrim: "trim s = rtrim (ltrim s)"
  by (simp add: trim_def ltrim_def rtrim_def)

lemma ltrim_Nil: "ltrim [] = []"
  by (simp add: ltrim_def)

lemma rtrim_Nil: "rtrim [] = []"
  by (simp add: rtrim_def)

lemma trim_Nil: "trim [] = []"
  by (simp add: trim_def)

lemma set_ltrim: "set (ltrim s) \<subseteq> set s"
  by (auto simp: ltrim_def dest: set_dropWhileD)

lemma set_rtrim: "set (rtrim s) \<subseteq> set s"
  by (auto simp: rtrim_def dest: set_dropWhileD)

lemma set_trim: "set (trim s) \<subseteq> set s"
  using set_ltrim set_rtrim by (fastforce simp: trim_ltrim_rtrim)

lemma ltrim_Cons: "\<not> is_ws c \<Longrightarrow> ltrim (c # s) = c # s"
  by (simp add: ltrim_def)

lemma ltrim_append: "ltrim a \<noteq> [] \<Longrightarrow> ltrim (a @ b) = ltrim a @ b"
proof -
  assume "ltrim a \<noteq> []"
  then obtain x where "x \<in> set a" and "\<not> is_ws x"
    by (auto simp: ltrim_def dropWhile_eq_Nil_conv)
  then show ?thesis
    by (simp add: ltrim_def dropWhile_append1)
qed

lemma ltrim_blank_append: "ltrim a = [] \<Longrightarrow> ltrim (a @ b) = ltrim b"
  by (simp add: ltrim_def dropWhile_append2 dropWhile_eq_Nil_conv)

lemma rtrim_snoc: "\<not> is_ws c \<Longrightarrow> rtrim (s @ [c]) = s @ [c]"
  by (simp add: rtrim_def)

lemma rtrim_append_Cons: "\<not> is_ws c \<Longrightarrow> rtrim (a @ c # b) = a @ c # rtrim b"
proof (cases "dropWhile is_ws (rev b) = []")
  case True
  assume c: "\<not> is_ws c"
  from True have "dropWhile is_ws (rev b @ c # rev a) = dropWhile is_ws (c # rev a)"
    using dropWhile_append2 [of "rev b" is_ws "c # rev a"]
    by (simp add: dropWhile_eq_Nil_conv)
  with True c show ?thesis
    by (simp add: rtrim_def)
next
  case False
  then obtain x where "x \<in> set (rev b)" and "\<not> is_ws x"
    by (auto simp: dropWhile_eq_Nil_conv)
  then have "dropWhile is_ws (rev b @ c # rev a) = dropWhile is_ws (rev b) @ c # rev a"
    by (simp add: dropWhile_append1)
  then show ?thesis
    by (simp add: rtrim_def)
qed

lemma hd_ltrim: "ltrim s \<noteq> [] \<Longrightarrow> \<not> is_ws (hd (ltrim s))"
  unfolding ltrim_def by (simp add: hd_dropWhile)

lemma last_rtrim: "rtrim s \<noteq> [] \<Longrightarrow> \<not> is_ws (last (rtrim s))"
  unfolding rtrim_def by (simp add: last_rev hd_dropWhile)

lemma rtrim_keeps_hd: "s \<noteq> [] \<Longrightarrow> \<not> is_ws (hd s) \<Longrightarrow> rtrim s \<noteq> [] \<and> hd (rtrim s) = hd s"
proof -
  assume "s \<noteq> []" and c: "\<not> is_ws (hd s)"
  then obtain x xs where s: "s = x # xs"
    by (cases s) auto
  with c have "rtrim ([] @ x # xs) = [] @ x # rtrim xs"
    using rtrim_append_Cons [of x "[]" xs] by simp
  with s show ?thesis by simp
qed

lemma trim_not_blank_ends:
  assumes "trim s \<noteq> []"
  shows "\<not> is_ws (hd (trim s))" and "\<not> is_ws (last (trim s))"
proof -
  from assms have l: "ltrim s \<noteq> []"
    by (auto simp: trim_ltrim_rtrim rtrim_def)
  then have "\<not> is_ws (hd (ltrim s))"
    by (rule hd_ltrim)
  with l show "\<not> is_ws (hd (trim s))"
    using rtrim_keeps_hd [of "ltrim s"] by (simp add: trim_ltrim_rtrim)
  from assms show "\<not> is_ws (last (trim s))"
    using last_rtrim [of "ltrim s"] by (simp add: trim_ltrim_rtrim)
qed

lemma rtrim_id: "s = [] \<or> \<not> is_ws (last s) \<Longrightarrow> rtrim s = s"
proof (cases s rule: rev_cases)
  case Nil
  then show ?thesis by (simp add: rtrim_def)
next
  case (snoc xs x)
  assume "s = [] \<or> \<not> is_ws (last s)"
  with snoc show ?thesis by (simp add: rtrim_snoc)
qed

lemma ltrim_id: "s = [] \<or> \<not> is_ws (hd s) \<Longrightarrow> ltrim s = s"
  by (cases s) (auto simp: ltrim_def)

lemma trim_id: "s = [] \<or> (\<not> is_ws (hd s) \<and> \<not> is_ws (last s)) \<Longrightarrow> trim s = s"
  using ltrim_id [of s] rtrim_id [of s] by (auto simp: trim_ltrim_rtrim)

lemma trim_idem: "trim (trim s) = trim s"
  using trim_not_blank_ends [of s] trim_id [of "trim s"] by blast

lemma trim_ltrim: "trim (ltrim s) = trim s"
proof -
  have "ltrim (ltrim s) = ltrim s"
    using hd_ltrim [of s] ltrim_id [of "ltrim s"] by blast
  then show ?thesis by (simp add: trim_ltrim_rtrim)
qed

lemma rtrim_idem: "rtrim (rtrim s) = rtrim s"
  using last_rtrim [of s] rtrim_id [of "rtrim s"] by blast

lemma ltrim_rtrim_commute: "ltrim (rtrim s) = rtrim (ltrim s)"
proof (cases "ltrim s = []")
  case True
  then have all: "\<forall>x\<in>set s. is_ws x"
    by (simp add: ltrim_def dropWhile_eq_Nil_conv)
  then have "rtrim s = []"
    by (simp add: rtrim_def dropWhile_eq_Nil_conv)
  with True show ?thesis by (simp add: ltrim_Nil rtrim_Nil)
next
  case False
  then obtain c cs where l: "ltrim s = c # cs"
    by (cases "ltrim s") auto
  then have c: "\<not> is_ws c"
    using hd_ltrim [of s] by simp
  have s: "s = takeWhile is_ws s @ c # cs"
    using l takeWhile_dropWhile_id [of is_ws s] by (simp add: ltrim_def)
  have "rtrim s = takeWhile is_ws s @ c # rtrim cs"
    using rtrim_append_Cons [OF c, of "takeWhile is_ws s" cs] s by simp
  moreover have "ltrim (takeWhile is_ws s @ c # rtrim cs) = c # rtrim cs"
    using c by (simp add: ltrim_def dropWhile_append2 dropWhile_eq_Nil_conv)
        (metis (full_types) dropWhile_append2 dropWhile.simps(2) set_takeWhileD)
  moreover have "rtrim (c # cs) = c # rtrim cs"
    using rtrim_append_Cons [OF c, of "[]" cs] by simp
  ultimately show ?thesis
    using l by simp
qed

lemma trim_rtrim: "trim (rtrim s) = trim s"
  by (simp add: trim_ltrim_rtrim ltrim_rtrim_commute rtrim_idem)

lemma trim_keeps_hd:
  assumes "s \<noteq> []" and "\<not> is_ws (hd s)"
  shows "trim s \<noteq> []" and "hd (trim s) = hd s"
  using assms rtrim_keeps_hd [of s] ltrim_id [of s] by (simp_all add: trim_ltrim_rtrim)

lemma eq_sign_not_ws: "\<not> is_ws eq_sign"
  by (simp add: is_ws_def eq_sign_def)

lemma trim_around_eq:
  assumes "ltrim k \<noteq> []"
  shows "trim (k @ eq_sign # v) = ltrim k @ eq_sign # rtrim v"
  using assms by (simp add: trim_ltrim_rtrim ltrim_append rtrim_append_Cons eq_sign_not_ws)

lemma trim_blank_before_eq:
  assumes "ltrim k = []"
  shows "trim (k @ eq_sign # v) = eq_sign # rtrim v"
proof -
  have "ltrim (k @ eq_sign # v) = eq_sign # v"
    using assms by (simp add: ltrim_blank_append ltrim_Cons eq_sign_not_ws)
  then show ?thesis
    using rtrim_append_Cons [of eq_sign "[]" v] by (simp add: trim_ltrim_rtrim eq_sign_not_ws)
qed

lemma startsWith_append: "a \<noteq> [] \<Longrightarrow> startsWith (a @ b) c = startsWith a c"
  by (cases a) (simp_all add: startsWith_def)

lemma split_on_not_Nil: "split_on p s \<noteq> []"
  by (induction s) (auto split: list.splits)

lemma split_on_no_sep: "\<forall>c\<in>set s. \<not> p c \<Longrightarrow> split_on p s = [s]"
  by (induction s) simp_all

lemma split_on_append_sep:
  "\<forall>c\<in>set a. \<not> p c \<Longrightarrow> p c \<Longrightarrow> split_on p (a @ c # b) = a # split_on p b"
  by (induction a) simp_all

lemma join_split_on: "join [c] (split_on (\<lambda>x. x = c) s) = s"
proof (induction s)
  case Nil
  then show ?case by simp
next
  case (Cons x xs)
  obtain y ys where sp: "split_on (\<lambda>x. x = c) xs = y # ys"
    using split_on_not_Nil [of "\<lambda>x. x = c" xs] by (cases "split_on (\<lambda>x. x = c) xs") auto
  show ?case
  proof (cases "x = c")
    case True
    with sp Cons.IH show ?thesis by simp
  next
    case False
    with sp Cons.IH show ?thesis by (cases ys) simp_all
  qed
qed

lemma split_on_fragment_free: "f \<in> set (split_on p s) \<Longrightarrow> \<forall>c\<in>set f. \<not> p c"
proof (induction s arbitrary: f)
  case Nil
  then show ?case by simp
next
  case (Cons x xs)
  obtain y ys where sp: "split_on p xs = y # ys"
    using split_on_not_Nil [of p xs] by (cases "split_on p xs") auto
  show ?case
  proof (cases "p x")
    case True
    with Cons show ?thesis by auto
  next
    case False
    with sp Cons.prems have "f = x # y \<or> f \<in> set ys"
      by simp
    moreover have "\<forall>g\<in>set (y # ys). \<forall>c\<in>set g. \<not> p c"
      using Cons.IH sp by metis
    ultimately show ?thesis
      using False by auto
  qed
qed

lemma split_on_join:
  "ls \<noteq> [] \<Longrightarrow> \<forall>l\<in>set ls. \<forall>c\<in>set l. \<not> p c \<Longrightarrow> p s \<Longrightarrow> split_on p (join [s] ls) = ls"
proof (induction ls)
  case Nil
  then show ?case by simp
next
  case (Cons x ls)
  show ?case
  proof (cases ls)
    case Nil
    with Cons.prems show ?thesis by (simp add: split_on_no_sep)
  next
    case more: (Cons y ys)
    have "split_on p (x @ s # join [s] ls) = x # split_on p (join [s] ls)"
      using Cons.prems by (intro split_on_append_sep) simp_all
    moreover have "split_on p (join [s] ls) = ls"
      using Cons.IH Cons.prems more by simp
    ultimately show ?thesis
      using more by simp
  qed
qed

text \<open>The text before the first \<open>=\<close> and the text after it.\<close>

lemma first_eq_parts:
  assumes "eq_sign \<in> set p"
  obtains k v where "p = k @ eq_sign # v" and "eq_sign \<notin> set k"
    and "takeWhile (\<lambda>c. c \<noteq> eq_sign) p = k" and "dropWhile (\<lambda>c. c \<noteq> eq_sign) p = eq_sign # v"
proof -
  let ?k = "takeWhile (\<lambda>c. c \<noteq> eq_sign) p" and ?d = "dropWhile (\<lambda>c. c \<noteq> eq_sign) p"
  from assms have "?d \<noteq> []"
    by (simp add: dropWhile_eq_Nil_conv)
  then obtain v where d: "?d = eq_sign # v"
    using hd_dropWhile [of "\<lambda>c. c \<noteq> eq_sign" p] by (cases ?d) auto
  have "p = ?k @ ?d" by simp
  with d have "p = ?k @ eq_sign # v" by simp
  moreover have "eq_sign \<notin> set ?k"
    by (auto dest: set_takeWhileD)
  ultimately show ?thesis
    using d that by blast
qed

lemma takeWhile_before_eq:
  "eq_sign \<notin> set k \<Longrightarrow> takeWhile (\<lambda>c. c \<noteq> eq_sign) (k @ eq_sign # v) = k"
  by (induction k) auto

lemma dropWhile_before_eq:
  "eq_sign \<notin> set k \<Longrightarrow> dropWhile (\<lambda>c. c \<noteq> eq_sign) (k @ eq_sign # v) = eq_sign # v"
  by (induction k) auto

lemma first_eq_none: "eq_sign \<notin> set f \<Longrightarrow> first_eq f = None"
proof -
  assume "eq_sign \<notin> set f"
  then have "dropWhile (\<lambda>c. c \<noteq> eq_sign) f = []"
    by (auto simp: dropWhile_eq_Nil_conv)
  then show ?thesis by (simp only: first_eq_def list.case)
qed

lemma first_eq_some: "eq_sign \<notin> set k \<Longrightarrow> first_eq (k @ eq_sign # v) = Some (k, v)"
  by (simp add: first_eq_def takeWhile_before_eq dropWhile_before_eq)

section \<open>Objects\<close>

lemma map_of_obj_define: "map_of (obj_define r k v) = (map_of r)(k \<mapsto> v)"
  by (induction r) (auto simp: fun_eq_iff)

lemma keys_obj_define: "fst ` set (obj_define r k v) = insert k (fst ` set r)"
proof (induction r)
  case Nil
  then show ?case by simp
next
  case (Cons e r)
  then show ?case by (cases e) (simp add: insert_commute)
qed

lemma set_obj_define: "set (obj_define r k v) \<subseteq> insert (k, v) (set r)"
  by (induction r) (auto split: if_splits)

lemma obj_define_fresh: "k \<notin> fst ` set r \<Longrightarrow> obj_define r k v = r @ [(k, v)]"
  by (induction r) auto

lemma distinct_obj_define:
  "distinct (map fst r) \<Longrightarrow> distinct (map fst (obj_define r k v))"
proof (induction r)
  case Nil
  then show ?case by simp
next
  case (Cons e r)
  then show ?case
    using keys_obj_define [of r k v] by (cases e) auto
qed

lemma distinct_obj_set: "distinct (map fst r) \<Longrightarrow> distinct (map fst (obj_set r k v))"
  by (simp add: obj_set_def distinct_obj_define)

lemma map_of_obj_set_other:
  "k' \<noteq> ''__proto__'' \<Longrightarrow> map_of (obj_set r k v) k' = ((map_of r)(k \<mapsto> v)) k'"
  by (simp add: obj_set_def map_of_obj_define)

lemma distinct_define_all:
  "distinct (map fst r) \<Longrightarrow> distinct (map fst (define_all r es))"
  unfolding define_all_def
  by (induction es arbitrary: r) (simp_all add: distinct_obj_define)

lemma map_of_define_all: "map_of (define_all r es) = map_of r ++ map_of (rev es)"
  unfolding define_all_def
proof (induction es arbitrary: r)
  case Nil
  then show ?case by simp
next
  case (Cons e es)
  have "map_of (foldl (\<lambda>r e. obj_define r (fst e) (snd e)) r (e # es)) =
        (map_of r)(fst e \<mapsto> snd e) ++ map_of (rev es)"
    by (simp add: Cons.IH map_of_obj_define fun_upd_def)
  also have "\<dots> = map_of r ++ map_of (rev (e # es))"
    by (rule ext) (simp add: map_add_def split: option.splits)
  finally show ?case .
qed

lemma define_all_fresh: "distinct (map fst (r @ es)) \<Longrightarrow> define_all r es = r @ es"
  unfolding define_all_def
proof (induction es arbitrary: r)
  case Nil
  then show ?case by simp
next
  case (Cons e es)
  then have "fst e \<notin> fst ` set r"
    by auto
  then have "obj_define r (fst e) (snd e) = r @ [e]"
    by (simp add: obj_define_fresh)
  moreover have "distinct (map fst ((r @ [e]) @ es))"
    using Cons.prems by simp
  ultimately show ?case
    using Cons.IH [of "r @ [e]"] by simp
qed

lemma own_entries_Nil: "own_entries [] = []"
  by (simp add: own_entries_def)

lemma Object_keys_Nil: "Object_keys [] = []"
  by (simp add: Object_keys_def own_entries_def)

lemma set_own_entries: "set (own_entries r) = set r"
  by (auto simp: own_entries_def)

lemma length_own_entries: "length (own_entries r) = length r"
proof -
  have "length (own_entries r) =
        length (filter (\<lambda>e. is_array_index (fst e)) r) +
        length (filter (\<lambda>e. \<not> is_array_index (fst e)) r)"
    by (simp add: own_entries_def)
  then show ?thesis
    using sum_length_filter_compl [of "\<lambda>e. is_array_index (fst e)" r] by simp
qed

lemma length_Object_keys: "length (Object_keys r) = length r"
  by (simp add: Object_keys_def length_own_entries)

lemma distinct_own_entries:
  assumes "distinct (map fst r)"
  shows "distinct (map fst (own_entries r))"
proof -
  let ?ix = "\<lambda>e. is_array_index (fst e)"
  have inj: "inj_on fst (set r)" and d: "distinct r"
    using assms by (simp_all add: distinct_map)
  have "distinct (sort_key (\<lambda>e. nat_of_digits (fst e)) (filter ?ix r) @ filter (\<lambda>e. \<not> ?ix e) r)"
    using d by auto
  then have "distinct (own_entries r)"
    by (simp add: own_entries_def)
  moreover have "inj_on fst (set (own_entries r))"
    using inj by (simp add: set_own_entries)
  ultimately show ?thesis
    by (simp add: distinct_map)
qed

lemma map_of_own_entries: "distinct (map fst r) \<Longrightarrow> map_of (own_entries r) = map_of r"
  using distinct_own_entries map_of_inject_set set_own_entries by blast

lemma map_of_rev_distinct: "distinct (map fst es) \<Longrightarrow> map_of (rev es) = map_of es"
proof -
  assume d: "distinct (map fst es)"
  then have "distinct (map fst (rev es))"
    by (simp add: rev_map [symmetric])
  with d show ?thesis
    using map_of_inject_set [of "rev es" es] by simp
qed

lemma map_of_map_snd:
  "map_of (map (\<lambda>e. (fst e, f (snd e))) xs) = map_option f \<circ> map_of xs"
  by (induction xs) (auto simp: fun_eq_iff)

lemma distinct_object_spread: "distinct (map fst (object_spread a b))"
  by (simp add: object_spread_def distinct_define_all)

lemma map_of_object_spread:
  "map_of (object_spread a b) = map_of (rev a) ++ map_of (rev b)"
  by (simp add: object_spread_def map_of_define_all)

lemma Object_keys_values:
  assumes "distinct (map fst r)"
  shows "map (\<lambda>k. f k (obj_get r k)) (Object_keys r) =
         map (\<lambda>e. f (fst e) (Some (snd e))) (own_entries r)"
proof -
  have "obj_get r (fst e) = Some (snd e)" if "e \<in> set (own_entries r)" for e
  proof -
    from that have "(fst e, snd e) \<in> set r"
      by (simp add: set_own_entries)
    with assms show ?thesis
      by (simp add: obj_get_def)
  qed
  then show ?thesis
    by (simp add: Object_keys_def)
qed

lemma card_dom_object: "distinct (map fst r) \<Longrightarrow> card (dom (map_of r)) = length r"
  by (metis distinct_card dom_map_of_conv_image_fst length_map list.set_map)

lemma mapping_of_fold:
  "foldl (\<lambda>m e. m(fst e \<mapsto> snd e)) m es = m ++ map_of (rev es)"
proof (induction es arbitrary: m)
  case Nil
  then show ?case by simp
next
  case (Cons e es)
  have "foldl (\<lambda>m e. m(fst e \<mapsto> snd e)) m (e # es) = m(fst e \<mapsto> snd e) ++ map_of (rev es)"
    by (simp only: foldl_Cons Cons.IH)
  also have "\<dots> = m ++ map_of (rev (e # es))"
    by (rule ext) (simp add: map_add_def split: option.splits)
  finally show ?case .
qed

lemma mapping_of_rev: "mapping_of es = map_of (rev es)"
  by (simp add: mapping_of_def mapping_of_fold)

section \<open>Properties of the .env parser\<close>

lemma distinct_env_line: "distinct (map fst r) \<Longrightarrow> distinct (map fst (env_line r line))"
  by (simp add: env_line_def Let_def distinct_obj_set split: option.splits)

lemma distinct_foldl_env_line:
  "distinct (map fst r) \<Longrightarrow> distinct (map fst (foldl env_line r ls))"
  by (induction ls arbitrary: r) (simp_all add: distinct_env_line)

lemma distinct_parseEnvFile: "distinct (map fst (parseEnvFile content))"
  by (simp add: parseEnvFile_def distinct_foldl_env_line)

lemma parseEnvFile_Nil: "parseEnvFile [] = []"
  by (simp add: parseEnvFile_def env_line_def trim_Nil)

lemma env_value_rtrim: "env_value (rtrim v) = env_value v"
  by (simp add: env_value_def trim_rtrim)

lemma match_key_value_parts:
  assumes "eq_sign \<notin> set k" and "k \<noteq> []" and "\<not> list_ex is_line_terminator v"
  shows "match_key_value (k @ eq_sign # v) = Some (k, v)"
  using assms by (simp add: match_key_value_def takeWhile_before_eq dropWhile_before_eq)

lemma match_key_value_Some:
  assumes "match_key_value s = Some (m1, m2)"
  shows "s = m1 @ eq_sign # m2" and "m1 \<noteq> []" and "eq_sign \<notin> set m1"
    and "\<not> list_ex is_line_terminator m2"
proof -
  from assms obtain x where d: "dropWhile (\<lambda>c. c \<noteq> eq_sign) s = x # m2"
    and m1: "m1 = takeWhile (\<lambda>c. c \<noteq> eq_sign) s"
    and ok: "m1 \<noteq> []" "\<not> list_ex is_line_terminator m2"
    by (auto simp: match_key_value_def Let_def split: list.splits if_splits)
  from d have "x = eq_sign"
    using hd_dropWhile [of "\<lambda>c. c \<noteq> eq_sign" s] by auto
  with d m1 show "s = m1 @ eq_sign # m2"
    using takeWhile_dropWhile_id [of "\<lambda>c. c \<noteq> eq_sign" s] by simp
  from ok show "m1 \<noteq> []" and "\<not> list_ex is_line_terminator m2"
    by simp_all
  from m1 show "eq_sign \<notin> set m1"
    by (auto dest: set_takeWhileD)
qed

lemma env_line_key_value:
  assumes "eq_sign \<notin> set k" and "ltrim k \<noteq> []" and "\<not> startsWith (ltrim k) (CHR ''#'')"
    and "\<not> list_ex is_line_terminator (rtrim v)"
  shows "env_line r (k @ eq_sign # v) = obj_set r (trim k) (env_value v)"
proof -
  have t: "trim (k @ eq_sign # v) = ltrim k @ eq_sign # rtrim v"
    using assms(2) by (rule trim_around_eq)
  have "eq_sign \<notin> set (ltrim k)"
    using assms(1) set_ltrim [of k] by auto
  then have m: "match_key_value (ltrim k @ eq_sign # rtrim v) = Some (ltrim k, rtrim v)"
    using assms(2,4) by (rule match_key_value_parts)
  have s: "\<not> startsWith (ltrim k @ eq_sign # rtrim v) (CHR ''#'')"
    using assms(2,3) by (simp add: startsWith_append)
  show ?thesis
    using s by (simp add: env_line_def t m trim_ltrim env_value_rtrim)
qed

lemma env_value_quoted:
  assumes "q = dquote \<or> q = squote" and "trim m2 = q # inner @ [q]"
  shows "env_value m2 = inner"
  using assms by (auto simp: env_value_def startsWith_def endsWith_def slice_1_m1_def)

text \<open>
  Claim C8. When the trimmed value is a quote character \<open>q\<close> (double or single), a text
  \<open>inner\<close> and the same quote again, the value stored is exactly \<open>inner\<close>: the outer
  pair is removed and nothing inside is interpreted, whatever \<open>inner\<close> holds (quotes
  and backslashes included). This is stated for the value alone and for a whole line
  \<open>k=m2\<close> of a file; \<open>KEY="hello world"\<close> gives \<open>hello world\<close> and \<open>KEY='it''s'\<close>
  gives \<open>it''s\<close>.
\<close>

theorem env_value_strips_outer_quotes:
  "(\<forall>m2 q inner.
      (q = dquote \<or> q = squote) \<longrightarrow> trim m2 = q # inner @ [q] \<longrightarrow> env_value m2 = inner) \<and>
   (\<forall>result k m2 q inner.
      eq_sign \<notin> set k \<longrightarrow> ltrim k \<noteq> [] \<longrightarrow> \<not> startsWith (ltrim k) (CHR ''#'') \<longrightarrow>
      \<not> list_ex is_line_terminator (rtrim m2) \<longrightarrow>
      (q = dquote \<or> q = squote) \<longrightarrow> trim m2 = q # inner @ [q] \<longrightarrow>
      env_line result (k @ eq_sign # m2) = obj_set result (trim k) inner) \<and>
   parseEnvFile (''KEY='' @ dq ''hello world'') = [(''KEY'', ''hello world'')] \<and>
   parseEnvFile (''KEY='' @ [squote] @ ''it'' @ [squote, squote] @ ''s'' @ [squote]) =
     [(''KEY'', ''it'' @ [squote, squote] @ ''s'')]"
proof (intro conjI allI impI)
  fix m2 q inner
  assume "q = dquote \<or> q = squote" and "trim m2 = q # inner @ [q]"
  then show "env_value m2 = inner"
    by (rule env_value_quoted)
next
  fix result :: "string obj" and k m2 q inner
  assume "eq_sign \<notin> set k" and "ltrim k \<noteq> []" and "\<not> startsWith (ltrim k) (CHR ''#'')"
    and "\<not> list_ex is_line_terminator (rtrim m2)"
    and "q = dquote \<or> q = squote" and "trim m2 = q # inner @ [q]"
  then show "env_line result (k @ eq_sign # m2) = obj_set result (trim k) inner"
    by (simp add: env_line_key_value env_value_quoted)
next
  show "parseEnvFile (''KEY='' @ dq ''hello world'') = [(''KEY'', ''hello world'')]"
    by (simp add: string_eval dq_def)
next
  show "parseEnvFile (''KEY='' @ [squote] @ ''it'' @ [squote, squote] @ ''s'' @ [squote]) =
     [(''KEY'', ''it'' @ [squote, squote] @ ''s'')]"
    by (simp add: string_eval)
qed

theorem env_value_strips_outer_quotes_witness:
  "(dquote = dquote \<or> dquote = squote) \<and>
   trim ('' '' @ dq (''a'' @ CHR 0x5C # ''tb'') @ '' '') = dquote # (''a'' @ CHR 0x5C # ''tb'') @ [dquote] \<and>
   env_value ('' '' @ dq (''a'' @ CHR 0x5C # ''tb'') @ '' '') = (''a'' @ CHR 0x5C # ''tb'') \<and>
   eq_sign \<notin> set ''KEY '' \<and> ltrim ''KEY '' \<noteq> [] \<and> \<not> startsWith (ltrim ''KEY '') (CHR ''#'') \<and>
   \<not> list_ex is_line_terminator (rtrim ('' '' @ dq (''a'' @ CHR 0x5C # ''tb'') @ '' '')) \<and>
   env_line [] (''KEY '' @ eq_sign # '' '' @ dq (''a'' @ CHR 0x5C # ''tb'') @ '' '') = [(''KEY'', (''a'' @ CHR 0x5C # ''tb''))]"
proof -
  let ?m2 = "'' '' @ dq (''a'' @ CHR 0x5C # ''tb'') @ '' ''"
  have q: "dquote = dquote \<or> dquote = squote"
    by simp
  have t: "trim ?m2 = dquote # (''a'' @ CHR 0x5C # ''tb'') @ [dquote]"
    by (simp add: string_eval dq_def)
  have k: "eq_sign \<notin> set ''KEY ''" "ltrim ''KEY '' \<noteq> []" "\<not> startsWith (ltrim ''KEY '') (CHR ''#'')"
    by (simp_all add: eq_sign_def ltrim_def is_ws_def startsWith_def)
  have v: "\<not> list_ex is_line_terminator (rtrim ?m2)"
    by (simp add: rtrim_def dq_def string_eval)
  have key: "trim ''KEY '' = ''KEY''"
    by (simp add: string_eval)
  have "env_value ?m2 = (''a'' @ CHR 0x5C # ''tb'')"
    using env_value_strips_outer_quotes q t by blast
  moreover have "env_line [] (''KEY '' @ eq_sign # ?m2) = obj_set [] (trim ''KEY '') (''a'' @ CHR 0x5C # ''tb'')"
    using env_value_strips_outer_quotes q t k v by blast
  ultimately show ?thesis
    using q t k v by (simp add: key obj_set_def obj_has_def)
qed

subsection \<open>Writing a parsed file back\<close>

lemma set_env_value: "set (env_value m2) \<subseteq> set m2"
proof -
  have "set (slice_1_m1 (trim m2)) \<subseteq> set (trim m2)"
    unfolding slice_1_m1_def
    by (meson set_take_subset set_drop_subset subset_trans)
  then have "set (env_value m2) \<subseteq> set (trim m2)"
    by (auto simp: env_value_def Let_def)
  then show ?thesis
    using set_trim [of m2] by blast
qed

lemma env_line_cases:
  assumes "CHR 0x0A \<notin> set line"
  shows "env_line r line = r \<or>
         (\<exists>k v. env_line r line = obj_set r k v \<and> k \<noteq> [] \<and> trim k = k \<and> eq_sign \<notin> set k \<and>
            CHR 0x0A \<notin> set k \<and> \<not> startsWith k (CHR ''#'') \<and>
            \<not> list_ex is_line_terminator v)"
proof (cases "trim line = [] \<or> startsWith (trim line) (CHR ''#'')")
  case True
  then show ?thesis by (auto simp: env_line_def)
next
  case False
  note live = this
  show ?thesis
  proof (cases "match_key_value (trim line)")
    case None
    with live show ?thesis by (simp add: env_line_def)
  next
    case (Some m)
    obtain m1 m2 where m: "m = (m1, m2)" by (cases m)
    note parts = match_key_value_Some [OF Some [unfolded m]]
    from live have ne: "trim line \<noteq> []" and hash: "\<not> startsWith (trim line) (CHR ''#'')"
      by simp_all
    have hd1: "hd m1 = hd (trim line)"
      using parts(1,2) by (cases m1) simp_all
    then have ws: "\<not> is_ws (hd m1)"
      using trim_not_blank_ends(1) [OF ne] by simp
    note key = trim_keeps_hd [OF parts(2) ws]
    have "\<not> startsWith (trim m1) (CHR ''#'')"
      using key hd1 hash ne by (cases "trim m1"; cases "trim line") (simp_all add: startsWith_def)
    moreover have "set (trim m1) \<subseteq> set line"
      using set_trim [of m1] set_trim [of line] parts(1) by auto
    then have "CHR 0x0A \<notin> set (trim m1)"
      using assms by auto
    moreover have "eq_sign \<notin> set (trim m1)"
      using parts(3) set_trim [of m1] by auto
    moreover have "\<not> list_ex is_line_terminator (env_value m2)"
      using parts(4) set_env_value [of m2] by (auto simp: list_ex_iff)
    moreover have "env_line r line = obj_set r (trim m1) (env_value m2)"
      using live Some m by (simp add: env_line_def)
    ultimately show ?thesis
      using key(1) trim_idem [of m1] by blast
  qed
qed

lemma parsed_entry_obj_set:
  assumes "\<forall>kv\<in>set r. parsed_entry kv"
    and "k \<noteq> []" "trim k = k" "eq_sign \<notin> set k" "CHR 0x0A \<notin> set k"
    "\<not> startsWith k (CHR ''#'')" "\<not> list_ex is_line_terminator v"
  shows "\<forall>kv\<in>set (obj_set r k v). parsed_entry kv"
proof (cases "k = ''__proto__''")
  case True
  have "map_of r k = None"
  proof (rule ccontr)
    assume "map_of r k \<noteq> None"
    then obtain x where "(k, x) \<in> set r"
      by (auto dest: map_of_SomeD)
    with assms(1) True show False
      by (auto simp: parsed_entry_def)
  qed
  with True assms(1) show ?thesis
    by (simp add: obj_set_def obj_has_def)
next
  case False
  then have "parsed_entry (k, v)"
    using assms by (simp add: parsed_entry_def)
  with False assms(1) show ?thesis
    using set_obj_define [of r k v] by (auto simp: obj_set_def)
qed

lemma parsed_entry_env_line:
  assumes "\<forall>kv\<in>set r. parsed_entry kv" and "CHR 0x0A \<notin> set line"
  shows "\<forall>kv\<in>set (env_line r line). parsed_entry kv"
  using env_line_cases [OF assms(2), of r] parsed_entry_obj_set [OF assms(1)] assms(1)
  by metis

lemma parsed_entry_foldl:
  "\<forall>kv\<in>set r. parsed_entry kv \<Longrightarrow> \<forall>l\<in>set ls. CHR 0x0A \<notin> set l \<Longrightarrow>
   \<forall>kv\<in>set (foldl env_line r ls). parsed_entry kv"
proof (induction ls arbitrary: r)
  case Nil
  then show ?case by simp
next
  case (Cons l ls)
  have "\<forall>kv\<in>set (env_line r l). parsed_entry kv"
    using Cons.prems by (intro parsed_entry_env_line) simp_all
  then show ?case
    using Cons.IH [of "env_line r l"] Cons.prems(2) by simp
qed

lemma parsed_entry_parseEnvFile: "\<forall>kv\<in>set (parseEnvFile content). parsed_entry kv"
proof -
  have "\<forall>l\<in>set (split_on (\<lambda>c. c = CHR 0x0A) content). CHR 0x0A \<notin> set l"
    using split_on_fragment_free [of _ "\<lambda>c. c = CHR 0x0A" content] by blast
  then show ?thesis
    unfolding parseEnvFile_def by (intro parsed_entry_foldl) simp_all
qed

lemma env_value_plain: "plain_value v \<Longrightarrow> env_value v = v"
  by (auto simp: plain_value_def env_value_def)

lemma env_line_entry:
  assumes "parsed_entry kv" and "plain_value (snd kv)"
  shows "env_line r (entry_line kv) = obj_define r (fst kv) (snd kv)"
proof -
  let ?k = "fst kv" and ?v = "snd kv"
  from assms(1) have k: "?k \<noteq> []" "trim ?k = ?k" "eq_sign \<notin> set ?k"
    "\<not> startsWith ?k (CHR ''#'')" "?k \<noteq> ''__proto__''"
    and v: "\<not> list_ex is_line_terminator ?v"
    by (simp_all add: parsed_entry_def)
  have "\<not> is_ws (hd ?k)"
    using trim_not_blank_ends(1) [of ?k] k(1,2) by simp
  then have l: "ltrim ?k = ?k"
    by (simp add: ltrim_id)
  have "\<not> list_ex is_line_terminator (rtrim ?v)"
    using v set_rtrim [of ?v] by (auto simp: list_ex_iff)
  then have "env_line r (?k @ eq_sign # ?v) = obj_set r (trim ?k) (env_value ?v)"
    using k l by (intro env_line_key_value) simp_all
  then show ?thesis
    using k assms(2) by (simp add: entry_line_def env_value_plain obj_set_def)
qed

lemma foldl_env_line_entries:
  "\<forall>kv\<in>set es. parsed_entry kv \<and> plain_value (snd kv) \<Longrightarrow>
   foldl env_line r (map entry_line es) = define_all r es"
  unfolding define_all_def
  by (induction es arbitrary: r) (simp_all add: env_line_entry)

lemma entry_line_one_line: "parsed_entry kv \<Longrightarrow> CHR 0x0A \<notin> set (entry_line kv)"
  by (auto simp: parsed_entry_def entry_line_def eq_sign_def list_ex_iff is_line_terminator_def)

lemma parseEnvFile_serialize:
  assumes "distinct (map fst r)" and "\<forall>kv\<in>set r. parsed_entry kv \<and> plain_value (snd kv)"
  shows "parseEnvFile (serialize r) = own_entries r"
proof (cases "own_entries r = []")
  case True
  then show ?thesis
    by (simp add: serialize_def parseEnvFile_Nil)
next
  case False
  let ?ls = "map entry_line (own_entries r)"
  have each: "\<forall>kv\<in>set (own_entries r). parsed_entry kv \<and> plain_value (snd kv)"
    using assms(2) by (simp add: set_own_entries)
  then have "\<forall>l\<in>set ?ls. \<forall>c\<in>set l. \<not> c = CHR 0x0A"
    using entry_line_one_line by auto
  then have "split_on (\<lambda>c. c = CHR 0x0A) (join [CHR 0x0A] ?ls) = ?ls"
    using False by (intro split_on_join) simp_all
  then have "parseEnvFile (serialize r) = define_all [] (own_entries r)"
    using foldl_env_line_entries [OF each, of "[]"] by (simp add: parseEnvFile_def serialize_def)
  then show ?thesis
    using define_all_fresh [of "[]" "own_entries r"] distinct_own_entries [OF assms(1)] by simp
qed

text \<open>
  Claim C6, as stated, fails: the file \<open>K=" a "\<close> parses to the value \<open> a \<close> with a
  space on each side, its serialization is the line \<open>K= a \<close>, and that line parses to
  the value \<open>a\<close>.
\<close>

theorem env_round_trip_counterexample:
  "parseEnvFile (''K='' @ dq '' a '') = [(''K'', '' a '')] \<and>
   serialize [(''K'', '' a '')] = ''K= a '' \<and>
   parseEnvFile ''K= a '' = [(''K'', ''a'')] \<and>
   map_of (parseEnvFile (serialize (parseEnvFile (''K='' @ dq '' a '')))) \<noteq>
   map_of (parseEnvFile (''K='' @ dq '' a ''))"
proof -
  have a: "parseEnvFile (''K='' @ dq '' a '') = [(''K'', '' a '')]"
    by (simp add: string_eval dq_def)
  have b: "serialize [(''K'', '' a '')] = ''K= a ''"
    by (simp add: serialize_def entry_line_def object_eval string_eval)
  have c: "parseEnvFile ''K= a '' = [(''K'', ''a'')]"
    by (simp add: string_eval)
  have "map_of [(''K'', ''a'')] ''K'' \<noteq> map_of [(''K'', '' a '')] ''K''"
    by simp
  then have "map_of [(''K'', ''a'')] \<noteq> map_of [(''K'', '' a '')]"
    by metis
  then show ?thesis
    by (simp only: a b c simp_thms)
qed

text \<open>
  Claim C6, amended. For every text whose parsed values are all plain (no white space at
  either end, not wrapped in a pair of quotes), serializing the parsed mapping to
  \<open>KEY=VALUE\<close> lines and parsing the result gives the same mapping: the same entries, in
  the order of \<open>Object.entries\<close>.
\<close>

theorem env_round_trip_plain_values:
  assumes "\<forall>kv\<in>set (parseEnvFile content). plain_value (snd kv)"
  shows "parseEnvFile (serialize (parseEnvFile content)) = own_entries (parseEnvFile content) \<and>
         map_of (parseEnvFile (serialize (parseEnvFile content))) = map_of (parseEnvFile content)"
proof -
  have "parseEnvFile (serialize (parseEnvFile content)) = own_entries (parseEnvFile content)"
    using assms parsed_entry_parseEnvFile [of content] distinct_parseEnvFile [of content]
    by (intro parseEnvFile_serialize) simp_all
  then show ?thesis
    using map_of_own_entries [OF distinct_parseEnvFile, of content] by simp
qed

theorem env_round_trip_plain_values_witness:
  "parseEnvFile ''# comment\<newline>\<newline>A = 1\<newline>B=x y\<newline>A=2'' = [(''A'', ''2''), (''B'', ''x y'')] \<and>
   plain_value ''2'' \<and> plain_value ''x y'' \<and>
   serialize [(''A'', ''2''), (''B'', ''x y'')] = ''A=2\<newline>B=x y'' \<and>
   parseEnvFile ''A=2\<newline>B=x y'' = [(''A'', ''2''), (''B'', ''x y'')]"
proof -
  let ?c = "''# comment\<newline>\<newline>A = 1\<newline>B=x y\<newline>A=2''"
  have a: "parseEnvFile ?c = [(''A'', ''2''), (''B'', ''x y'')]"
    by (simp add: string_eval)
  have h: "\<forall>kv\<in>set (parseEnvFile ?c). plain_value (snd kv)"
    by (simp add: a plain_value_def string_eval)
  have e: "own_entries [(''A'', ''2''), (''B'', ''x y'')] = [(''A'', ''2''), (''B'', ''x y'')]"
    by (simp add: object_eval string_eval)
  have s: "serialize [(''A'', ''2''), (''B'', ''x y'')] = ''A=2\<newline>B=x y''"
    by (simp add: serialize_def e entry_line_def eq_sign_def)
  show ?thesis
    using env_round_trip_plain_values [OF h] h
    by (simp add: a s e del: plain_value_def)
qed

section \<open>Properties of the merger\<close>

lemma distinct_inline_pair: "distinct (map fst r) \<Longrightarrow> distinct (map fst (inline_pair r p))"
  by (simp add: inline_pair_def distinct_obj_set split: list.splits)

lemma distinct_foldl_inline_pair:
  "distinct (map fst r) \<Longrightarrow> distinct (map fst (foldl inline_pair r ps))"
  by (induction ps arbitrary: r) (simp_all add: distinct_inline_pair)

lemma distinct_load_inline: "distinct (map fst r) \<Longrightarrow> distinct (map fst (load_inline v r))"
  by (simp add: load_inline_def distinct_foldl_inline_pair)

lemma distinct_load_env_file:
  "load_env_file fs e [] = Inr r \<Longrightarrow> distinct (map fst r)"
  by (auto simp: load_env_file_def distinct_object_spread split: if_splits sum.splits)

lemma distinct_load_json:
  "load_json j r1 = Inr r \<Longrightarrow> distinct (map fst r1) \<Longrightarrow> distinct (map fst r)"
  by (auto simp: load_json_def distinct_object_spread split: if_splits option.splits)

lemma distinct_parseVariables:
  "parseVariables fs e j v = Inr r \<Longrightarrow> distinct (map fst r)"
proof -
  assume p: "parseVariables fs e j v = Inr r"
  then obtain r1 r2 where
    r1: "load_env_file fs e [] = Inr r1" and
    r2: "load_json j r1 = Inr r2" and
    r: "r = load_inline v r2"
    by (auto simp: parseVariables_def split: sum.splits)
  show ?thesis
    using distinct_load_inline [OF distinct_load_json [OF r2 distinct_load_env_file [OF r1]]] r
    by simp
qed

lemma parseVariables_no_source: "parseVariables fs [] [] [] = Inr []"
  by (simp add: parseVariables_def load_env_file_def load_json_def load_inline_def)

lemma map_of_load_env_file:
  assumes "load_env_file fs e [] = Inr r"
  shows "map_of r = file_source fs e"
proof (cases "e = []")
  case True
  with assms show ?thesis
    by (simp add: load_env_file_def file_source_def)
next
  case False
  with assms obtain content where c: "fs e = Inr content"
    and r: "r = object_spread (own_entries [])
               (map (\<lambda>e. (fst e, JStr (snd e))) (own_entries (parseEnvFile content)))"
    by (auto simp: load_env_file_def split: sum.splits)
  let ?es = "map (\<lambda>e. (fst e, JStr (snd e))) (own_entries (parseEnvFile content))"
  have d: "distinct (map fst ?es)"
    using distinct_own_entries [OF distinct_parseEnvFile, of content] by (simp add: comp_def)
  have "map_of ?es = map_option JStr \<circ> map_of (own_entries (parseEnvFile content))"
    by (rule map_of_map_snd)
  then have "map_of (rev ?es) = map_option JStr \<circ> map_of (parseEnvFile content)"
    using map_of_rev_distinct [OF d] map_of_own_entries [OF distinct_parseEnvFile, of content]
    by simp
  with r c False show ?thesis
    by (simp add: map_of_object_spread own_entries_Nil file_source_def)
qed

lemma map_of_load_json:
  assumes "load_json j r1 = Inr r" and "distinct (map fst r1)"
  shows "map_of r = map_of r1 ++ json_source j"
proof (cases "j = []")
  case True
  with assms show ?thesis
    by (simp add: load_json_def json_source_def)
next
  case False
  with assms obtain parsed where p: "JSON_parse j = Some parsed"
    and r: "r = object_spread (own_entries r1) (enumerable_entries parsed)"
    by (auto simp: load_json_def split: option.splits)
  have "map_of (rev (own_entries r1)) = map_of r1"
    using assms(2) by (simp add: map_of_rev_distinct distinct_own_entries map_of_own_entries)
  with r p False show ?thesis
    by (simp add: map_of_object_spread json_source_def mapping_of_rev)
qed

lemma inline_pair_with_eq:
  assumes "eq_sign \<notin> set k"
  shows "inline_pair r (k @ eq_sign # v) =
         (if k \<noteq> [] then obj_set r (trim k) (JStr (trim v)) else r)"
proof -
  have "split_on (\<lambda>c. c = eq_sign) (k @ eq_sign # v) = k # split_on (\<lambda>c. c = eq_sign) v"
    using assms by (intro split_on_append_sep) auto
  then show ?thesis
    by (simp add: inline_pair_def split_on_not_Nil join_split_on)
qed

lemma inline_pair_without_eq: "eq_sign \<notin> set p \<Longrightarrow> inline_pair r p = r"
proof -
  assume "eq_sign \<notin> set p"
  then have "split_on (\<lambda>c. c = eq_sign) p = [p]"
    by (intro split_on_no_sep) auto
  then show ?thesis by (simp add: inline_pair_def)
qed

subsection \<open>The inline source\<close>

lemma load_inline_fold:
  "load_inline variables r =
   foldl inline_pair r
     (filter (\<lambda>p. trim p \<noteq> []) (split_on (\<lambda>c. c = CHR 0x0A \<or> c = CHR '','') variables))"
  by (simp add: load_inline_def trim_Nil)

lemma map_of_inline_pair_amended:
  assumes "k \<noteq> ''__proto__''"
  shows "map_of (inline_pair r p) k =
         (map_of r ++ map_of (rev (map (\<lambda>kv. (fst kv, JStr (snd kv))) (amended_pair p)))) k"
proof (cases "eq_sign \<in> set p")
  case False
  then show ?thesis
    by (simp add: inline_pair_without_eq amended_pair_def first_eq_none)
next
  case True
  then obtain key v where p: "p = key @ eq_sign # v" and key: "eq_sign \<notin> set key"
    by (rule first_eq_parts)
  show ?thesis
  proof (cases "key = []")
    case True
    with p key show ?thesis
      using inline_pair_with_eq [OF key, of r v] first_eq_some [OF key, of v]
      by (simp add: amended_pair_def)
  next
    case False
    with p key have "inline_pair r p = obj_set r (trim key) (JStr (trim v))"
      and "amended_pair p = [(trim key, trim v)]"
      using inline_pair_with_eq [OF key, of r v] first_eq_some [OF key, of v]
      by (simp_all add: amended_pair_def)
    then show ?thesis
      using map_of_obj_set_other [OF assms, of r "trim key" "JStr (trim v)"]
      by (simp add: map_add_def)
  qed
qed

lemma map_of_foldl_inline_pair_amended:
  assumes "k \<noteq> ''__proto__''"
  shows "map_of (foldl inline_pair r ps) k =
         (map_of r ++
          map_of (rev (map (\<lambda>kv. (fst kv, JStr (snd kv))) (concat (map amended_pair ps))))) k"
proof (induction ps arbitrary: r)
  case Nil
  then show ?case by simp
next
  case (Cons p ps)
  let ?J = "map (\<lambda>kv. (fst kv, JStr (snd kv)))"
  have "map_of (foldl inline_pair r (p # ps)) k =
        (map_of (inline_pair r p) ++ map_of (rev (?J (concat (map amended_pair ps))))) k"
    using Cons.IH [of "inline_pair r p"] by simp
  also have "\<dots> =
        ((map_of r ++ map_of (rev (?J (amended_pair p)))) ++
         map_of (rev (?J (concat (map amended_pair ps))))) k"
    using map_of_inline_pair_amended [OF assms, of r p]
    by (simp add: map_add_def split: option.splits)
  also have "\<dots> =
        (map_of r ++ map_of (rev (?J (concat (map amended_pair (p # ps)))))) k"
    by (simp add: map_add_def split: option.splits)
  finally show ?case .
qed

lemma map_of_load_inline_amended:
  assumes "k \<noteq> ''__proto__''"
  shows "map_of (load_inline variables r) k = (map_of r ++ amended_mapping variables) k"
  using map_of_foldl_inline_pair_amended [OF assms, of r]
  by (simp add: load_inline_fold amended_mapping_def amended_inline_pairs_def mapping_of_rev)

text \<open>
  Claim C9, as stated, fails: in the inline source \<open>=x\<close> the one fragment is not blank
  and its first \<open>=\<close> splits it into the empty key and the value \<open>x\<close>, so the reading of
  the claim holds the pair of the empty key and \<open>x\<close>; the program skips the fragment
  (the guard \<open>key &&\<close>) and stores nothing.
\<close>

theorem inline_first_equals_sign_counterexample:
  "worded_inline_pairs ''=x'' = [([], ''x'')] \<and>
   worded_mapping ''=x'' [] = Some (JStr ''x'') \<and>
   load_inline ''=x'' [] = [] \<and>
   map_of (load_inline ''=x'' []) [] \<noteq> worded_mapping ''=x'' []"
proof -
  have a: "worded_inline_pairs ''=x'' = [([], ''x'')]"
    by (simp add: worded_inline_pairs_def worded_pair_def first_eq_def string_eval)
  have b: "worded_mapping ''=x'' [] = Some (JStr ''x'')"
    by (simp add: worded_mapping_def a mapping_of_def)
  have c: "load_inline ''=x'' [] = []"
    by (simp add: merge_eval string_eval)
  show ?thesis
    by (simp add: a b c)
qed

text \<open>
  Claim C9, amended. The inline source is split on newline or comma and the fragments
  that are blank once trimmed are skipped; a fragment without \<open>=\<close>, or with nothing
  before its first \<open>=\<close> as written, is skipped too; every other fragment is split at
  its first \<open>=\<close> only into key and value, both trimmed, so that the value may hold
  further \<open>=\<close> signs, and the value is stored under the key, a later pair overwriting an
  earlier one. This gives the value of every name other than \<open>__proto__\<close> after the
  inline source has been applied to any mapping; \<open>A=1,B=2=3\<close> gives \<open>A=1\<close> and
  \<open>B=2=3\<close>.
\<close>

theorem inline_first_equals_sign:
  assumes "k \<noteq> ''__proto__''"
  shows "map_of (load_inline variables r) k = (map_of r ++ amended_mapping variables) k"
  using assms by (rule map_of_load_inline_amended)

theorem inline_first_equals_sign_witness:
  "''B'' \<noteq> ''__proto__'' \<and>
   amended_inline_pairs ''A=1,B=2=3'' = [(''A'', ''1''), (''B'', ''2=3'')] \<and>
   amended_mapping ''A=1,B=2=3'' ''B'' = Some (JStr ''2=3'') \<and>
   map_of (load_inline ''A=1,B=2=3'' []) ''B'' = Some (JStr ''2=3'') \<and>
   load_inline ''A=1,B=2=3'' [] = [(''A'', JStr ''1''), (''B'', JStr ''2=3'')] \<and>
   amended_inline_pairs ''KEY1=value1\<newline>KEY2=value2'' =
     [(''KEY1'', ''value1''), (''KEY2'', ''value2'')] \<and>
   load_inline ''KEY1=value1\<newline>KEY2=value2'' [] =
     [(''KEY1'', JStr ''value1''), (''KEY2'', JStr ''value2'')]"
proof -
  have k: "''B'' \<noteq> ''__proto__''"
    by simp
  have a: "amended_inline_pairs ''A=1,B=2=3'' = [(''A'', ''1''), (''B'', ''2=3'')]"
    by (simp add: amended_inline_pairs_def amended_pair_def first_eq_def string_eval)
  have m: "amended_mapping ''A=1,B=2=3'' ''B'' = Some (JStr ''2=3'')"
    by (simp add: amended_mapping_def a mapping_of_def)
  have b: "amended_inline_pairs ''KEY1=value1\<newline>KEY2=value2'' =
     [(''KEY1'', ''value1''), (''KEY2'', ''value2'')]"
    by (simp add: amended_inline_pairs_def amended_pair_def first_eq_def string_eval)
  have l: "load_inline ''A=1,B=2=3'' [] = [(''A'', JStr ''1''), (''B'', JStr ''2=3'')]"
    "load_inline ''KEY1=value1\<newline>KEY2=value2'' [] =
       [(''KEY1'', JStr ''value1''), (''KEY2'', JStr ''value2'')]"
    by (simp_all add: merge_eval string_eval)
  have "map_of (load_inline ''A=1,B=2=3'' []) ''B'' = (map_of [] ++ amended_mapping ''A=1,B=2=3'') ''B''"
    using inline_first_equals_sign [OF k, of "''A=1,B=2=3''" "[]"] .
  then have "map_of (load_inline ''A=1,B=2=3'' []) ''B'' = Some (JStr ''2=3'')"
    by (simp add: m)
  then show ?thesis
    using k a m b l by simp
qed

text \<open>
  A key of white space only is not empty as written: the fragment is kept and its value
  stored under the empty name.
\<close>

lemma inline_blank_names:
  "load_inline ''=x'' [] = [] \<and> load_inline '' =x'' [] = [([], JStr ''x'')] \<and>
   amended_inline_pairs ''=x'' = [] \<and> amended_inline_pairs '' =x'' = [([], ''x'')]"
  by (simp add: merge_eval amended_inline_pairs_def amended_pair_def first_eq_def string_eval)

subsection \<open>The order of the sources\<close>

lemma run_try_set:
  assumes "required_inputs inp" and "getInput inp ''operation'' = ''set''"
  shows "run_try inp fs client s =
         run_set inp fs client s (getInput inp ''organization'') (getInput inp ''app_name'')
           (getInput inp ''environment_name'') (getInput inp ''replace'' = ''true'')"
  using assms by (simp add: run_try_def required_inputs_def getInput_required_def getInput_def)

text \<open>
  For every name other than \<open>__proto__\<close>, the value in the merged mapping is its value
  in the left fold, from the empty mapping, of the file source, then the JSON source,
  then the inline source, a later source overwriting an earlier one.
\<close>

lemma merge_order_other_names:
  assumes "parseVariables fs envFile jsonVars variables = Inr r" and "k \<noteq> ''__proto__''"
  shows "map_of r k =
         (((Map.empty ++ file_source fs envFile) ++ json_source jsonVars) ++
           amended_mapping variables) k"
proof -
  from assms(1) obtain r1 r2 where
    r1: "load_env_file fs envFile [] = Inr r1" and
    r2: "load_json jsonVars r1 = Inr r2" and
    r: "r = load_inline variables r2"
    by (auto simp: parseVariables_def split: sum.splits)
  have "map_of r2 = file_source fs envFile ++ json_source jsonVars"
    using map_of_load_json [OF r2 distinct_load_env_file [OF r1]] map_of_load_env_file [OF r1]
    by simp
  then show ?thesis
    using map_of_load_inline_amended [OF assms(2), of variables r2] r by simp
qed

lemma merge_order_example:
  "parseVariables (one_file ''.env'' ''A=1\<newline>B=2'') ''.env''
     (''{'' @ dq ''B'' @ '':'' @ dq ''3'' @ '','' @ dq ''C'' @ '':'' @ dq ''4'' @ ''}'')
     ''C=5,D=6'' =
   Inr [(''A'', JStr ''1''), (''B'', JStr ''3''), (''C'', JStr ''5''), (''D'', JStr ''6'')]"
  by (simp add: merge_eval string_eval object_eval json_eval one_file_def dq_def)

text \<open>
  Claim C1. The merged mapping is to be the left fold of the three parsed sources, each
  overwriting the keys of the one before. The program misses this at the name
  \<open>__proto__\<close>. The inline source \<open>__proto__=x\<close> holds the pair of \<open>__proto__\<close> and
  \<open>x\<close>; with no file and no JSON the fold is the mapping of \<open>__proto__\<close> to \<open>x\<close>, but
  the assignment \<open>result[key] = value\<close> stores nothing, the merged mapping is empty and
  the run of \<open>set\<close> only warns that there is nothing to set. The line \<open>__proto__=a\<close>
  of a file is lost in the same way. The JSON path does store the name: a member
  \<open>__proto__\<close> is kept, and after it the same inline pair is stored as well.
\<close>

theorem merge_drops_proto_name:
  "worded_inline_pairs ''__proto__=x'' = [(''__proto__'', ''x'')] \<and>
   worded_mapping ''__proto__=x'' ''__proto__'' = Some (JStr ''x'') \<and>
   parseVariables no_files [] [] ''__proto__=x'' = Inr [] \<and>
   run (inputs_for ''set'' ''variables'' ''__proto__=x'') no_files (failing_at 7 500) 0 =
     (0, [Warning ''No variables to set'']) \<and>
   parseVariables (one_file ''.env'' ''__proto__=a'') ''.env'' [] [] = Inr [] \<and>
   parseVariables no_files [] (''{'' @ dq ''__proto__'' @ '':'' @ dq ''y'' @ ''}'') [] =
     Inr [(''__proto__'', JStr ''y'')] \<and>
   parseVariables no_files [] (''{'' @ dq ''__proto__'' @ '':'' @ dq ''y'' @ ''}'') ''__proto__=x'' =
     Inr [(''__proto__'', JStr ''x'')]"
proof -
  let ?inp = "inputs_for ''set'' ''variables'' ''__proto__=x''"
  have a: "worded_inline_pairs ''__proto__=x'' = [(''__proto__'', ''x'')]"
    by (simp add: worded_inline_pairs_def worded_pair_def first_eq_def string_eval)
  have b: "worded_mapping ''__proto__=x'' ''__proto__'' = Some (JStr ''x'')"
    by (simp add: worded_mapping_def a mapping_of_def)
  have c: "parseVariables no_files [] [] ''__proto__=x'' = Inr []"
    by (simp add: merge_eval string_eval)
  have i: "getInput ?inp ''env_file'' = []" "getInput ?inp ''json_vars'' = []"
    "getInput ?inp ''variables'' = ''__proto__=x''" "getInput ?inp ''operation'' = ''set''"
    by (simp_all add: input_eval string_eval)
  have "required_inputs ?inp"
    by (simp add: input_eval)
  then have d: "run ?inp no_files (failing_at 7 500) 0 = (0, [Warning ''No variables to set''])"
    by (simp add: run_def run_try_set run_set_def i c Object_keys_Nil)
  have e: "parseVariables (one_file ''.env'' ''__proto__=a'') ''.env'' [] [] = Inr []"
    by (simp add: merge_eval string_eval object_eval one_file_def)
  have f: "parseVariables no_files [] (''{'' @ dq ''__proto__'' @ '':'' @ dq ''y'' @ ''}'') [] =
     Inr [(''__proto__'', JStr ''y'')]"
    by (simp add: merge_eval json_eval object_eval string_eval dq_def)
  have g: "parseVariables no_files [] (''{'' @ dq ''__proto__'' @ '':'' @ dq ''y'' @ ''}'')
      ''__proto__=x'' = Inr [(''__proto__'', JStr ''x'')]"
    by (simp add: merge_eval json_eval object_eval string_eval dq_def)
  show ?thesis
    by (simp only: a b c d e f g simp_thms)
qed

subsection \<open>The JSON source\<close>

lemma error_message_SyntaxError: "errorMessage SyntaxError = ''Unexpected token in JSON''"
  by (simp add: errorMessage_def SyntaxError_def or_else_def)

text \<open>
  Claim C2, as stated, fails: the text \<open>[1,2]\<close> is valid JSON whose top level is an
  array, and \<open>parseVariables\<close> does not fail on it but returns the mapping of the
  indices \<open>0\<close> and \<open>1\<close> to the numbers; and the object \<open>{"A":1}\<close> gives a mapping whose
  value is a number, not a string.
\<close>

theorem json_source_counterexample:
  "JSON_parse ''[1,2]'' = Some (JArr [JNum ''1'', JNum ''2'']) \<and>
   parseVariables no_files [] ''[1,2]'' [] = Inr [(''0'', JNum ''1''), (''1'', JNum ''2'')] \<and>
   JSON_parse (''{'' @ dq ''A'' @ '':1}'') = Some (JObj [(''A'', JNum ''1'')]) \<and>
   parseVariables no_files [] (''{'' @ dq ''A'' @ '':1}'') [] = Inr [(''A'', JNum ''1'')]"
  by (simp add: merge_eval json_eval object_eval string_eval dq_def show_nat.simps)

text \<open>
  Claim C2, amended. When a JSON string is given (and the file, if any, was read), a
  text that is not valid JSON makes \<open>parseVariables\<close> fail with a \<open>SyntaxError\<close>, and
  the run of \<open>set\<close> then ends marked failed without any call to the remote side. A
  valid text never fails, whatever its top level: the own enumerable properties of the
  decoded value are merged as they are, no value being checked or turned into a string.
\<close>

theorem json_source_syntax_error_only:
  assumes "required_inputs inp" and "getInput inp ''operation'' = ''set''"
    and "getInput inp ''json_vars'' \<noteq> []"
    and "load_env_file fs (getInput inp ''env_file'') [] = Inr r1"
  shows "(JSON_parse (getInput inp ''json_vars'') = None \<longrightarrow>
            parseVariables fs (getInput inp ''env_file'') (getInput inp ''json_vars'')
              (getInput inp ''variables'') = Inl SyntaxError \<and>
            error_name SyntaxError = ''SyntaxError'' \<and>
            run inp fs client s = (s, [SetFailed ''Unexpected token in JSON''])) \<and>
         (\<forall>parsed. JSON_parse (getInput inp ''json_vars'') = Some parsed \<longrightarrow>
            parseVariables fs (getInput inp ''env_file'') (getInput inp ''json_vars'')
              (getInput inp ''variables'') =
            Inr (load_inline (getInput inp ''variables'')
                   (object_spread (own_entries r1) (enumerable_entries parsed))))"
proof (intro conjI impI allI)
  assume n: "JSON_parse (getInput inp ''json_vars'') = None"
  then show p: "parseVariables fs (getInput inp ''env_file'') (getInput inp ''json_vars'')
              (getInput inp ''variables'') = Inl SyntaxError"
    using assms(3,4) by (simp add: parseVariables_def load_json_def)
  show "error_name SyntaxError = ''SyntaxError''"
    by (simp add: SyntaxError_def)
  show "run inp fs client s = (s, [SetFailed ''Unexpected token in JSON''])"
    using assms(1,2,3) p
    by (simp add: run_def run_try_set run_set_def Let_def error_message_SyntaxError)
next
  fix parsed
  assume "JSON_parse (getInput inp ''json_vars'') = Some parsed"
  then show "parseVariables fs (getInput inp ''env_file'') (getInput inp ''json_vars'')
              (getInput inp ''variables'') =
            Inr (load_inline (getInput inp ''variables'')
                   (object_spread (own_entries r1) (enumerable_entries parsed)))"
    using assms(3,4) by (simp add: parseVariables_def load_json_def)
qed

theorem json_source_syntax_error_only_witness:
  "required_inputs (inputs_for ''set'' ''json_vars'' ''{'') \<and>
   getInput (inputs_for ''set'' ''json_vars'' ''{'') ''operation'' = ''set'' \<and>
   getInput (inputs_for ''set'' ''json_vars'' ''{'') ''json_vars'' = ''{'' \<and>
   load_env_file no_files (getInput (inputs_for ''set'' ''json_vars'' ''{'') ''env_file'') [] =
     Inr [] \<and>
   JSON_parse ''{'' = None \<and>
   run (inputs_for ''set'' ''json_vars'' ''{'') no_files (failing_at 7 500) 0 =
     (0, [SetFailed ''Unexpected token in JSON'']) \<and>
   required_inputs (inputs_for ''set'' ''json_vars'' ''true'') \<and>
   JSON_parse ''true'' = Some (JBool True) \<and>
   parseVariables no_files [] ''true'' [] = Inr []"
proof -
  let ?bad = "inputs_for ''set'' ''json_vars'' ''{''"
  let ?good = "inputs_for ''set'' ''json_vars'' ''true''"
  have r: "required_inputs ?bad" "required_inputs ?good"
    by (simp_all add: input_eval)
  have o: "getInput ?bad ''operation'' = ''set''" "getInput ?good ''operation'' = ''set''"
    by (simp_all add: input_eval string_eval)
  have j: "getInput ?bad ''json_vars'' = ''{''" "getInput ?good ''json_vars'' = ''true''"
    by (simp_all add: input_eval string_eval)
  have e: "getInput ?bad ''env_file'' = []" "getInput ?good ''env_file'' = []"
    "getInput ?good ''variables'' = []"
    by (simp_all add: input_eval string_eval)
  have l: "load_env_file no_files (getInput ?bad ''env_file'') [] = Inr []"
    "load_env_file no_files (getInput ?good ''env_file'') [] = Inr []"
    by (simp_all add: e load_env_file_def)
  have n: "JSON_parse ''{'' = None" and t: "JSON_parse ''true'' = Some (JBool True)"
    by (simp_all add: json_eval is_digit_def)
  have jb: "getInput ?bad ''json_vars'' \<noteq> []" and jg: "getInput ?good ''json_vars'' \<noteq> []"
    by (simp_all add: j)
  show ?thesis
    using json_source_syntax_error_only [OF r(1) o(1) jb l(1), where client = "failing_at 7 500" and s = 0]
      json_source_syntax_error_only [OF r(2) o(2) jg l(2)] r o j l n t
    by (simp add: e load_inline_def object_spread_def define_all_def own_entries_Nil)
qed

section \<open>Properties of the run\<close>

lemma requests_append: "requests (xs @ ys) = requests xs @ requests ys"
  by (induction xs rule: requests.induct) simp_all

lemma outputs_append: "outputs (xs @ ys) = outputs xs @ outputs ys"
  by (induction xs rule: outputs.induct) simp_all

lemma marked_failed_append:
  "marked_failed (xs @ ys) \<longleftrightarrow> marked_failed xs \<or> marked_failed ys"
  by (induction xs rule: marked_failed.induct) simp_all

lemma length_answers: "length (answers client s cs) = length cs"
  by (induction cs arbitrary: s) simp_all

lemma run_try_clear:
  assumes "required_inputs inp" and "getInput inp ''operation'' = ''clear''"
  shows "run_try inp fs client s =
         run_clear client s (getInput inp ''organization'') (getInput inp ''app_name'')
           (getInput inp ''environment_name'')"
  using assms by (simp add: run_try_def required_inputs_def getInput_required_def getInput_def)

lemma run_try_delete:
  assumes "required_inputs inp" and "getInput inp ''operation'' = ''delete''"
  shows "run_try inp fs client s =
         run_delete inp client s (getInput inp ''organization'') (getInput inp ''app_name'')
           (getInput inp ''environment_name'')"
  using assms by (simp add: run_try_def required_inputs_def getInput_required_def getInput_def)

lemma run_set_parsed:
  assumes "parseVariables fs (getInput inp ''env_file'') (getInput inp ''json_vars'')
             (getInput inp ''variables'') = Inr vars"
    and "Object_keys vars \<noteq> []"
  shows "run_set inp fs client s org app env replace =
         (if replace then set_replace client s org app env vars (Object_keys vars)
          else set_merge client s org app env vars (Object_keys vars))"
proof -
  have "\<not> (getInput inp ''env_file'' = [] \<and> getInput inp ''json_vars'' = [] \<and>
            getInput inp ''variables'' = [])"
    using assms parseVariables_no_source [of fs] Object_keys_Nil by auto
  then show ?thesis
    using assms by (auto simp add: run_set_def Let_def)
qed

text \<open>
  Claim C7. The clear operation makes one call, \<open>bulkSet\<close> with the empty list, whatever
  the state of the remote side. If the call succeeds the outputs are
  \<open>deleted_count = "all"\<close> and \<open>failed_count = 0\<close> and the run is not marked failed; if
  it throws, nothing more is tried, no output is set and the run is marked failed.
\<close>

theorem clear_reports_all:
  assumes "required_inputs inp" and "getInput inp ''operation'' = ''clear''"
  shows "requests (snd (run inp fs client s)) =
           [bulkSetEnvironmentVariables (getInput inp ''organization'') (getInput inp ''app_name'')
              (getInput inp ''environment_name'') []] \<and>
         fst (run inp fs client s) =
           snd (client s (bulkSetEnvironmentVariables (getInput inp ''organization'')
              (getInput inp ''app_name'') (getInput inp ''environment_name'') [])) \<and>
         (case fst (client s (bulkSetEnvironmentVariables (getInput inp ''organization'')
              (getInput inp ''app_name'') (getInput inp ''environment_name'') [])) of
            Inr resp \<Rightarrow>
              outputs (snd (run inp fs client s)) =
                [(''deleted_count'', OutStr ''all''), (''failed_count'', OutNum 0)] \<and>
              \<not> marked_failed (snd (run inp fs client s))
          | Inl e \<Rightarrow>
              outputs (snd (run inp fs client s)) = [] \<and>
              marked_failed (snd (run inp fs client s)))"
  using assms
  by (simp add: run_def run_try_clear run_clear_def Let_def split: prod.splits sum.splits)

theorem clear_reports_all_witness:
  "required_inputs (inputs_for ''clear'' [] []) \<and>
   getInput (inputs_for ''clear'' [] []) ''operation'' = ''clear'' \<and>
   outputs (snd (run (inputs_for ''clear'' [] []) no_files (failing_at 7 500) 0)) =
     [(''deleted_count'', OutStr ''all''), (''failed_count'', OutNum 0)] \<and>
   \<not> marked_failed (snd (run (inputs_for ''clear'' [] []) no_files (failing_at 7 500) 0)) \<and>
   outputs (snd (run (inputs_for ''clear'' [] []) no_files (failing_at 0 500) 0)) = [] \<and>
   marked_failed (snd (run (inputs_for ''clear'' [] []) no_files (failing_at 0 500) 0))"
proof -
  have r: "required_inputs (inputs_for ''clear'' [] [])"
    by (simp add: required_inputs_def inputs_for_def)
  have o: "getInput (inputs_for ''clear'' [] []) ''operation'' = ''clear''"
    by (simp add: getInput_def inputs_for_def trim_def is_ws_def)
  show ?thesis
    using clear_reports_all [OF r o, of no_files "failing_at 7 500" 0]
      clear_reports_all [OF r o, of no_files "failing_at 0 500" 0] r o
    by (simp add: failing_at_def)
qed

subsection \<open>Delete\<close>

lemma delete_each_result:
  "delete_each client org app env keys (s, d, f, tr) = (s', d', f', tr') \<Longrightarrow>
   s' = final_state client s (map (deleteEnvironmentVariable org app env) keys) \<and>
   d' = d + length (filter (\<lambda>a. succeeded a \<or> not_found a)
          (answers client s (map (deleteEnvironmentVariable org app env) keys))) \<and>
   f' = f + length (filter (\<lambda>a. \<not> succeeded a \<and> \<not> not_found a)
          (answers client s (map (deleteEnvironmentVariable org app env) keys))) \<and>
   requests tr' = requests tr @ map (deleteEnvironmentVariable org app env) keys \<and>
   outputs tr' = outputs tr \<and>
   marked_failed tr' = marked_failed tr"
proof (induction keys arbitrary: s d f tr)
  case Nil
  then show ?case by simp
next
  case (Cons key keys)
  show ?case
  proof (cases "client s (deleteEnvironmentVariable org app env key)")
    case (Pair a s1)
    show ?thesis
    proof (cases a)
      case (Inl e)
      show ?thesis
      proof (cases "statusCode e = Some 404")
        case True
        with Inl Pair Cons.prems Cons.IH [of s1 "d + 1" f _ ] show ?thesis
          by (simp add: succeeded_def not_found_def requests_append outputs_append
              marked_failed_append)
      next
        case False
        with Inl Pair Cons.prems Cons.IH [of s1 d "f + 1" _ ] show ?thesis
          by (simp add: succeeded_def not_found_def requests_append outputs_append
              marked_failed_append)
      qed
    next
      case (Inr resp)
      with Pair Cons.prems Cons.IH [of s1 "d + 1" f _ ] show ?thesis
        by (simp add: succeeded_def not_found_def requests_append outputs_append
            marked_failed_append)
    qed
  qed
qed

lemma key_list_empty_input: "key_list (trim []) = []"
  by (simp add: key_list_def trim_def)

text \<open>
  Claim C4. The delete operation calls \<open>delete\<close> once for every key of the key list, in
  order, whatever the earlier calls answered. \<open>deleted_count\<close> is the number of calls
  that succeeded or were rejected with status 404, \<open>failed_count\<close> the number of the
  other calls, the two add up to the number of keys, and the run is not marked failed,
  even when \<open>failed_count\<close> is positive. With three keys and the second call rejected
  with status 500 the outputs are 2 and 1.
\<close>

theorem delete_counts:
  assumes "required_inputs inp" and "getInput inp ''operation'' = ''delete''"
    and "key_list (getInput inp ''keys'') \<noteq> []"
  shows "let calls = map (deleteEnvironmentVariable (getInput inp ''organization'')
                        (getInput inp ''app_name'') (getInput inp ''environment_name''))
                       (key_list (getInput inp ''keys''));
             deleted = length (filter (\<lambda>a. succeeded a \<or> not_found a)
                         (answers client s calls));
             failed = length (filter (\<lambda>a. \<not> succeeded a \<and> \<not> not_found a)
                         (answers client s calls));
             tr = snd (run inp fs client s)
         in requests tr = calls \<and>
            fst (run inp fs client s) = final_state client s calls \<and>
            outputs tr = [(''deleted_count'', OutNum deleted), (''failed_count'', OutNum failed)] \<and>
            deleted + failed = length (key_list (getInput inp ''keys'')) \<and>
            \<not> marked_failed tr"
proof -
  let ?org = "getInput inp ''organization''" and ?app = "getInput inp ''app_name''"
    and ?env = "getInput inp ''environment_name''"
  let ?keys = "key_list (getInput inp ''keys'')"
  let ?calls = "map (deleteEnvironmentVariable ?org ?app ?env) ?keys"
  obtain s' d' f' tr' where
    loop: "delete_each client ?org ?app ?env ?keys (s, 0, 0, []) = (s', d', f', tr')"
    by (metis prod_cases4)
  note r = delete_each_result [OF loop]
  have given: "inp ''keys'' \<noteq> []"
    using assms(3) key_list_empty_input by (auto simp add: getInput_def)
  have body: "run_try inp fs client s = (None, s', tr' @ [SetOutput ''deleted_count'' (OutNum d'),
                               SetOutput ''failed_count'' (OutNum f')])"
    using assms given loop
    by (simp add: run_try_delete run_delete_def getInput_required_def getInput_def)
  have total: "length (filter (\<lambda>a. succeeded a \<or> not_found a) (answers client s ?calls)) +
        length (filter (\<lambda>a. \<not> succeeded a \<and> \<not> not_found a) (answers client s ?calls)) =
        length ?keys"
    using sum_length_filter_compl [of "\<lambda>a. succeeded a \<or> not_found a" "answers client s ?calls"]
    by (simp add: length_answers)
  show ?thesis
    using r total
    by (simp add: run_def body Let_def requests_append outputs_append marked_failed_append)
qed

theorem delete_counts_witness:
  "required_inputs (inputs_for ''delete'' ''keys'' ''A,B,C'') \<and>
   getInput (inputs_for ''delete'' ''keys'' ''A,B,C'') ''operation'' = ''delete'' \<and>
   key_list (getInput (inputs_for ''delete'' ''keys'' ''A,B,C'') ''keys'') = [''A'', ''B'', ''C''] \<and>
   outputs (snd (run (inputs_for ''delete'' ''keys'' ''A,B,C'') no_files (failing_at 1 500) 0)) =
     [(''deleted_count'', OutNum 2), (''failed_count'', OutNum 1)] \<and>
   \<not> marked_failed (snd (run (inputs_for ''delete'' ''keys'' ''A,B,C'') no_files (failing_at 1 500) 0)) \<and>
   outputs (snd (run (inputs_for ''delete'' ''keys'' ''A,B,C'') no_files (failing_at 1 404) 0)) =
     [(''deleted_count'', OutNum 3), (''failed_count'', OutNum 0)]"
proof -
  let ?inp = "inputs_for ''delete'' ''keys'' ''A,B,C''"
  have r: "required_inputs ?inp"
    by (simp add: input_eval)
  have o: "getInput ?inp ''operation'' = ''delete''"
    by (simp add: input_eval string_eval)
  have k: "key_list (getInput ?inp ''keys'') = [''A'', ''B'', ''C'']"
    by (simp add: input_eval string_eval key_list_def)
  then have k': "key_list (getInput ?inp ''keys'') \<noteq> []"
    by simp
  show ?thesis
    using delete_counts [OF r o k', where fs = no_files and client = "failing_at 1 500" and s = 0]
      delete_counts [OF r o k', where fs = no_files and client = "failing_at 1 404" and s = 0] r o k
    by (simp add: Let_def failing_at_def succeeded_def not_found_def)
qed

subsection \<open>Set\<close>

lemma update_each_result:
  "update_each client org app env vars keys (s, u, f, tr) = (s', u', f', tr') \<Longrightarrow>
   s' = final_state client s (map (\<lambda>k. updateEnvironmentVariable org app env k (obj_get vars k)) keys) \<and>
   u' = u + length (filter succeeded
          (answers client s (map (\<lambda>k. updateEnvironmentVariable org app env k (obj_get vars k)) keys))) \<and>
   f' = f + length (filter (\<lambda>a. \<not> succeeded a)
          (answers client s (map (\<lambda>k. updateEnvironmentVariable org app env k (obj_get vars k)) keys))) \<and>
   requests tr' = requests tr @ map (\<lambda>k. updateEnvironmentVariable org app env k (obj_get vars k)) keys \<and>
   outputs tr' = outputs tr \<and>
   marked_failed tr' = marked_failed tr"
proof (induction keys arbitrary: s u f tr)
  case Nil
  then show ?case by simp
next
  case (Cons key keys)
  show ?case
  proof (cases "client s (updateEnvironmentVariable org app env key (obj_get vars key))")
    case (Pair a s1)
    show ?thesis
    proof (cases a)
      case (Inl e)
      with Pair Cons.prems Cons.IH [of s1 u "f + 1" _ ] show ?thesis
        by (simp add: succeeded_def requests_append outputs_append marked_failed_append)
    next
      case (Inr resp)
      with Pair Cons.prems Cons.IH [of s1 "u + 1" f _ ] show ?thesis
        by (simp add: succeeded_def requests_append outputs_append marked_failed_append)
    qed
  qed
qed

lemma parsed_ABC:
  "parseVariables no_files [] [] ''A=1,B=2,C=3'' =
   Inr [(''A'', JStr ''1''), (''B'', JStr ''2''), (''C'', JStr ''3'')]"
  by (simp add: merge_eval string_eval object_eval)

lemma keys_ABC:
  "Object_keys [(''A'', JStr ''1''), (''B'', JStr ''2''), (''C'', JStr ''3'')] = [''A'', ''B'', ''C'']"
  by (simp add: object_eval string_eval)

lemma parsed_AB:
  "parseVariables no_files [] [] ''A=1,B=2'' = Inr [(''A'', JStr ''1''), (''B'', JStr ''2'')]"
  by (simp add: merge_eval string_eval object_eval)

lemma entries_AB:
  "own_entries [(''A'', JStr ''1''), (''B'', JStr ''2'')] = [(''A'', JStr ''1''), (''B'', JStr ''2'')]"
  by (simp add: object_eval string_eval)

text \<open>
  Claim C3. In merge mode (the \<open>replace\<close> input is not \<open>true\<close>) the set operation calls
  \<open>update\<close> once for every key of the merged mapping, whatever the earlier calls
  answered. \<open>updated_count\<close> is the number of calls that succeeded, \<open>failed_count\<close>
  the number that threw, both outputs are set, the two add up to the number of keys, and
  the run is marked failed exactly when \<open>failed_count\<close> is positive. With three keys
  and the second call rejected the outputs are 2 and 1 and the run is marked failed.
\<close>

theorem set_merge_counts:
  assumes "required_inputs inp" and "getInput inp ''operation'' = ''set''"
    and "getInput inp ''replace'' \<noteq> ''true''"
    and "parseVariables fs (getInput inp ''env_file'') (getInput inp ''json_vars'')
           (getInput inp ''variables'') = Inr vars"
    and "Object_keys vars \<noteq> []"
  shows "let calls = map (\<lambda>e. updateEnvironmentVariable (getInput inp ''organization'')
                        (getInput inp ''app_name'') (getInput inp ''environment_name'')
                        (fst e) (Some (snd e))) (own_entries vars);
             updated = length (filter succeeded (answers client s calls));
             failed = length (filter (\<lambda>a. \<not> succeeded a) (answers client s calls));
             tr = snd (run inp fs client s)
         in requests tr = calls \<and>
            fst (run inp fs client s) = final_state client s calls \<and>
            outputs tr = [(''updated_count'', OutNum updated), (''failed_count'', OutNum failed)] \<and>
            updated + failed = card (dom (map_of vars)) \<and>
            (marked_failed tr \<longleftrightarrow> failed > 0)"
proof -
  let ?org = "getInput inp ''organization''" and ?app = "getInput inp ''app_name''"
    and ?env = "getInput inp ''environment_name''"
  let ?calls = "map (\<lambda>e. updateEnvironmentVariable ?org ?app ?env (fst e) (Some (snd e)))
                  (own_entries vars)"
  have d: "distinct (map fst vars)"
    using assms(4) by (rule distinct_parseVariables)
  have calls: "map (\<lambda>k. updateEnvironmentVariable ?org ?app ?env k (obj_get vars k))
                 (Object_keys vars) = ?calls"
    using d by (rule Object_keys_values)
  obtain s' u' f' tr' where
    loop: "update_each client ?org ?app ?env vars (Object_keys vars) (s, 0, 0, []) =
           (s', u', f', tr')"
    by (metis prod_cases4)
  note r = update_each_result [OF loop, unfolded calls]
  have body: "run_try inp fs client s = set_merge client s ?org ?app ?env vars (Object_keys vars)"
    using assms by (simp add: run_try_set run_set_parsed)
  have "length (filter succeeded (answers client s ?calls)) +
        length (filter (\<lambda>a. \<not> succeeded a) (answers client s ?calls)) =
        length (own_entries vars)"
    using sum_length_filter_compl [of succeeded "answers client s ?calls"]
    by (simp add: length_answers)
  then have total: "length (filter succeeded (answers client s ?calls)) +
        length (filter (\<lambda>a. \<not> succeeded a) (answers client s ?calls)) =
        card (dom (map_of vars))"
    using d by (simp add: length_own_entries card_dom_object)
  show ?thesis
    using r total
    by (simp add: run_def body set_merge_def loop Let_def requests_append outputs_append
        marked_failed_append)
qed

theorem set_merge_counts_witness:
  "required_inputs (inputs_for ''set'' ''variables'' ''A=1,B=2,C=3'') \<and>
   getInput (inputs_for ''set'' ''variables'' ''A=1,B=2,C=3'') ''operation'' = ''set'' \<and>
   getInput (inputs_for ''set'' ''variables'' ''A=1,B=2,C=3'') ''replace'' \<noteq> ''true'' \<and>
   parseVariables no_files
     (getInput (inputs_for ''set'' ''variables'' ''A=1,B=2,C=3'') ''env_file'')
     (getInput (inputs_for ''set'' ''variables'' ''A=1,B=2,C=3'') ''json_vars'')
     (getInput (inputs_for ''set'' ''variables'' ''A=1,B=2,C=3'') ''variables'') =
     Inr [(''A'', JStr ''1''), (''B'', JStr ''2''), (''C'', JStr ''3'')] \<and>
   Object_keys [(''A'', JStr ''1''), (''B'', JStr ''2''), (''C'', JStr ''3'')] \<noteq> [] \<and>
   requests (snd (run (inputs_for ''set'' ''variables'' ''A=1,B=2,C=3'') no_files
                    (failing_at 1 500) 0)) =
     [updateEnvironmentVariable ''org'' ''app'' ''prod'' ''A'' (Some (JStr ''1'')),
      updateEnvironmentVariable ''org'' ''app'' ''prod'' ''B'' (Some (JStr ''2'')),
      updateEnvironmentVariable ''org'' ''app'' ''prod'' ''C'' (Some (JStr ''3''))] \<and>
   outputs (snd (run (inputs_for ''set'' ''variables'' ''A=1,B=2,C=3'') no_files
                   (failing_at 1 500) 0)) =
     [(''updated_count'', OutNum 2), (''failed_count'', OutNum 1)] \<and>
   marked_failed (snd (run (inputs_for ''set'' ''variables'' ''A=1,B=2,C=3'') no_files
                         (failing_at 1 500) 0)) \<and>
   outputs (snd (run (inputs_for ''set'' ''variables'' ''A=1,B=2,C=3'') no_files
                   (failing_at 7 500) 0)) =
     [(''updated_count'', OutNum 3), (''failed_count'', OutNum 0)] \<and>
   \<not> marked_failed (snd (run (inputs_for ''set'' ''variables'' ''A=1,B=2,C=3'') no_files
                         (failing_at 7 500) 0))"
proof -
  let ?inp = "inputs_for ''set'' ''variables'' ''A=1,B=2,C=3''"
  let ?vars = "[(''A'', JStr ''1''), (''B'', JStr ''2''), (''C'', JStr ''3'')]"
  have r: "required_inputs ?inp"
    by (simp add: input_eval)
  have o: "getInput ?inp ''operation'' = ''set''"
    by (simp add: input_eval string_eval)
  have m: "getInput ?inp ''replace'' \<noteq> ''true''"
    by (simp add: input_eval string_eval)
  have i: "getInput ?inp ''env_file'' = []" "getInput ?inp ''json_vars'' = []"
    "getInput ?inp ''variables'' = ''A=1,B=2,C=3''"
    by (simp_all add: input_eval string_eval)
  have p: "parseVariables no_files (getInput ?inp ''env_file'') (getInput ?inp ''json_vars'')
             (getInput ?inp ''variables'') = Inr ?vars"
    by (simp only: i parsed_ABC)
  have k: "Object_keys ?vars \<noteq> []"
    by (simp add: keys_ABC)
  have g: "getInput ?inp ''organization'' = ''org''" "getInput ?inp ''app_name'' = ''app''"
    "getInput ?inp ''environment_name'' = ''prod''"
    by (simp_all add: input_eval string_eval)
  have e: "own_entries ?vars = ?vars"
    by (simp add: object_eval string_eval)
  show ?thesis
    using set_merge_counts [OF r o m p k, where client = "failing_at 1 500" and s = 0]
      set_merge_counts [OF r o m p k, where client = "failing_at 7 500" and s = 0] r o m p k
    by (simp add: Let_def e g failing_at_def succeeded_def)
qed

text \<open>
  Claim C5. In replace mode the set operation makes one call, \<open>bulkSet\<close> with every
  entry of the merged mapping as a name and its value. If the call succeeds,
  \<open>updated_count\<close> is the size of the merged mapping and \<open>failed_count\<close> is 0; if it
  throws, \<open>updated_count\<close> is 0, \<open>failed_count\<close> is the size of the merged mapping and
  the run is marked failed.
\<close>

theorem set_replace_counts:
  assumes "required_inputs inp" and "getInput inp ''operation'' = ''set''"
    and "getInput inp ''replace'' = ''true''"
    and "parseVariables fs (getInput inp ''env_file'') (getInput inp ''json_vars'')
           (getInput inp ''variables'') = Inr vars"
    and "Object_keys vars \<noteq> []"
  shows "let c = bulkSetEnvironmentVariables (getInput inp ''organization'')
                   (getInput inp ''app_name'') (getInput inp ''environment_name'')
                   (map (\<lambda>e. (fst e, Some (snd e))) (own_entries vars));
             size = card (dom (map_of vars));
             tr = snd (run inp fs client s)
         in requests tr = [c] \<and>
            fst (run inp fs client s) = snd (client s c) \<and>
            (case fst (client s c) of
               Inr resp \<Rightarrow>
                 outputs tr = [(''updated_count'', OutNum size), (''failed_count'', OutNum 0)] \<and>
                 \<not> marked_failed tr
             | Inl e \<Rightarrow>
                 outputs tr = [(''updated_count'', OutNum 0), (''failed_count'', OutNum size)] \<and>
                 marked_failed tr)"
proof -
  have d: "distinct (map fst vars)"
    using assms(4) by (rule distinct_parseVariables)
  have body: "run_try inp fs client s =
      set_replace client s (getInput inp ''organization'') (getInput inp ''app_name'')
        (getInput inp ''environment_name'') vars (Object_keys vars)"
    using assms by (simp add: run_try_set run_set_parsed)
  have size: "length (Object_keys vars) = card (dom (map_of vars))"
    using d by (simp add: length_Object_keys card_dom_object)
  show ?thesis
    by (simp add: run_def body set_replace_def Let_def Object_keys_values [OF d, of Pair] size
        split: prod.splits sum.splits)
qed

theorem set_replace_counts_witness:
  "required_inputs ((inputs_for ''set'' ''variables'' ''A=1,B=2'')(''replace'' := ''true'')) \<and>
   getInput ((inputs_for ''set'' ''variables'' ''A=1,B=2'')(''replace'' := ''true''))
     ''operation'' = ''set'' \<and>
   getInput ((inputs_for ''set'' ''variables'' ''A=1,B=2'')(''replace'' := ''true''))
     ''replace'' = ''true'' \<and>
   requests (snd (run ((inputs_for ''set'' ''variables'' ''A=1,B=2'')(''replace'' := ''true''))
                    no_files (failing_at 7 500) 0)) =
     [bulkSetEnvironmentVariables ''org'' ''app'' ''prod''
        [(''A'', Some (JStr ''1'')), (''B'', Some (JStr ''2''))]] \<and>
   outputs (snd (run ((inputs_for ''set'' ''variables'' ''A=1,B=2'')(''replace'' := ''true''))
                   no_files (failing_at 7 500) 0)) =
     [(''updated_count'', OutNum 2), (''failed_count'', OutNum 0)] \<and>
   \<not> marked_failed (snd (run ((inputs_for ''set'' ''variables'' ''A=1,B=2'')(''replace'' := ''true''))
                           no_files (failing_at 7 500) 0)) \<and>
   outputs (snd (run ((inputs_for ''set'' ''variables'' ''A=1,B=2'')(''replace'' := ''true''))
                   no_files (failing_at 0 500) 0)) =
     [(''updated_count'', OutNum 0), (''failed_count'', OutNum 2)] \<and>
   marked_failed (snd (run ((inputs_for ''set'' ''variables'' ''A=1,B=2'')(''replace'' := ''true''))
                         no_files (failing_at 0 500) 0))"
proof -
  let ?inp = "(inputs_for ''set'' ''variables'' ''A=1,B=2'')(''replace'' := ''true'')"
  let ?vars = "[(''A'', JStr ''1''), (''B'', JStr ''2'')]"
  have r: "required_inputs ?inp"
    by (simp add: input_eval)
  have o: "getInput ?inp ''operation'' = ''set''"
    by (simp add: input_eval string_eval)
  have m: "getInput ?inp ''replace'' = ''true''"
    by (simp add: input_eval string_eval)
  have i: "getInput ?inp ''env_file'' = []" "getInput ?inp ''json_vars'' = []"
    "getInput ?inp ''variables'' = ''A=1,B=2''"
    by (simp_all add: input_eval string_eval)
  have p: "parseVariables no_files (getInput ?inp ''env_file'') (getInput ?inp ''json_vars'')
             (getInput ?inp ''variables'') = Inr ?vars"
    by (simp only: i parsed_AB)
  have k: "Object_keys ?vars \<noteq> []"
    by (simp add: Object_keys_def entries_AB)
  have g: "getInput ?inp ''organization'' = ''org''" "getInput ?inp ''app_name'' = ''app''"
    "getInput ?inp ''environment_name'' = ''prod''"
    by (simp_all add: input_eval string_eval)
  have c: "card (dom (map_of ?vars)) = 2"
    using card_dom_object [of ?vars] by simp
  show ?thesis
    using set_replace_counts [OF r o m p k, where client = "failing_at 7 500" and s = 0]
      set_replace_counts [OF r o m p k, where client = "failing_at 0 500" and s = 0] r o m
    by (simp add: Let_def entries_AB g c failing_at_def del: fun_upd_apply)
qed

text \<open>
  Claim C10. When at least one source is given and the merged mapping has no key, the
  set operation only logs the warning: no call reaches the remote side, whose state is
  unchanged, neither \<open>updated_count\<close> nor \<open>failed_count\<close> is set, and the run is not
  marked failed. The \<open>replace\<close> input plays no part, so \<open>bulkSet\<close> is never called
  with an empty list by \<open>set\<close>.
\<close>

theorem set_nothing_to_set:
  assumes "required_inputs inp" and "getInput inp ''operation'' = ''set''"
    and "getInput inp ''env_file'' \<noteq> [] \<or> getInput inp ''json_vars'' \<noteq> [] \<or>
         getInput inp ''variables'' \<noteq> []"
    and "parseVariables fs (getInput inp ''env_file'') (getInput inp ''json_vars'')
           (getInput inp ''variables'') = Inr vars"
    and "Object_keys vars = []"
  shows "run inp fs client s = (s, [Warning ''No variables to set''])"
  using assms by (auto simp add: run_def run_try_set run_set_def Let_def)

theorem set_nothing_to_set_witness:
  "required_inputs ((inputs_for ''set'' ''variables'' ''novalue'')(''replace'' := ''true'')) \<and>
   getInput ((inputs_for ''set'' ''variables'' ''novalue'')(''replace'' := ''true''))
     ''operation'' = ''set'' \<and>
   getInput ((inputs_for ''set'' ''variables'' ''novalue'')(''replace'' := ''true''))
     ''variables'' \<noteq> [] \<and>
   parseVariables no_files [] [] ''novalue'' = Inr [] \<and>
   Object_keys ([] :: json obj) = [] \<and>
   run ((inputs_for ''set'' ''variables'' ''novalue'')(''replace'' := ''true'')) no_files
     (failing_at 7 500) 0 = (0, [Warning ''No variables to set'']) \<and>
   requests [Warning ''No variables to set''] = [] \<and>
   outputs [Warning ''No variables to set''] = [] \<and>
   \<not> marked_failed [Warning ''No variables to set'']"
proof -
  let ?inp = "(inputs_for ''set'' ''variables'' ''novalue'')(''replace'' := ''true'')"
  have r: "required_inputs ?inp"
    by (simp add: input_eval)
  have o: "getInput ?inp ''operation'' = ''set''"
    by (simp add: input_eval string_eval)
  have i: "getInput ?inp ''env_file'' = []" "getInput ?inp ''json_vars'' = []"
    "getInput ?inp ''variables'' = ''novalue''"
    by (simp_all add: input_eval string_eval)
  have some: "getInput ?inp ''env_file'' \<noteq> [] \<or> getInput ?inp ''json_vars'' \<noteq> [] \<or>
         getInput ?inp ''variables'' \<noteq> []"
    by (simp add: i)
  have e: "parseVariables no_files [] [] ''novalue'' = Inr []"
    by (simp add: merge_eval string_eval object_eval)
  have p: "parseVariables no_files (getInput ?inp ''env_file'') (getInput ?inp ''json_vars'')
             (getInput ?inp ''variables'') = Inr []"
    by (simp only: i e)
  have k: "Object_keys ([] :: json obj) = []"
    by (rule Object_keys_Nil)
  show ?thesis
    using set_nothing_to_set [OF r o some p k, where client = "failing_at 7 500" and s = 0]
      r o i e k
    by (simp del: fun_upd_apply)
qed

end
